theory Spec2Isabelle
  imports Complex_Main "HOL-Library.Sublist"
begin

section \<open>Python floats\<close>

text \<open>
  A Python \<open>float\<close> is an IEEE 754 binary64 number: a finite value, which is a real number
  of the form \<open>m * 2 ^ j\<close> with \<open>\<bar>m\<bar> < 2 ^ 53\<close> and \<open>- 1074 \<le> j \<le> 971\<close>, an infinity or
  a NaN. The two zeros are one value here: they are equal under \<open>==\<close>, and they differ
  only in the sign that \<open>format\<close> prints.
\<close>

datatype pyfloat = Fin real | PInf | NInf | NaN

text \<open>Rounding to the nearest integer, a tie going to the even one.\<close>

definition rne :: "real \<Rightarrow> int" where
  "rne x =
     (let f = \<lfloor>x\<rfloor>; r = x - of_int f
      in if r < 1 / 2 then f else if 1 / 2 < r then f + 1 else if even f then f else f + 1)"

text \<open>
  The exponent of the last place of \<open>x\<close>: 52 binary places below its leading bit, and
  \<open>- 1074\<close> in the subnormal range.
\<close>

definition ulp_exp :: "real \<Rightarrow> int" where
  "ulp_exp x = max (\<lfloor>log 2 \<bar>x\<bar>\<rfloor> - 52) (- 1074)"

text \<open>
  The rounding of every arithmetic operation and of \<open>float(s)\<close>: to the nearest number
  with 53 significant bits, ties to even. A result beyond the largest finite value
  \<open>DBL_MAX\<close> is an infinity; \<open>+\<close> and \<open>-\<close> and \<open>float(s)\<close> do not raise for it.
\<close>

definition round_double :: "real \<Rightarrow> real" where
  "round_double x =
     (if x = 0 then 0 else of_int (rne (x / 2 powi ulp_exp x)) * 2 powi ulp_exp x)"

definition DBL_MAX :: real where
  "DBL_MAX = (2 ^ 53 - 1) * 2 ^ 971"

definition to_float :: "real \<Rightarrow> pyfloat" where
  "to_float x =
     (let r = round_double x
      in if DBL_MAX < r then PInf else if r < - DBL_MAX then NInf else Fin r)"

definition is_double :: "real \<Rightarrow> bool" where
  "is_double x = (to_float x = Fin x)"

fun fneg :: "pyfloat \<Rightarrow> pyfloat" where
  "fneg (Fin x) = Fin (- x)"
| "fneg PInf = NInf"
| "fneg NInf = PInf"
| "fneg NaN = NaN"

fun fadd :: "pyfloat \<Rightarrow> pyfloat \<Rightarrow> pyfloat" where
  "fadd (Fin x) (Fin y) = to_float (x + y)"
| "fadd NaN b = NaN"
| "fadd a NaN = NaN"
| "fadd PInf NInf = NaN"
| "fadd NInf PInf = NaN"
| "fadd PInf b = PInf"
| "fadd a PInf = PInf"
| "fadd NInf b = NInf"
| "fadd a NInf = NInf"

definition fsub :: "pyfloat \<Rightarrow> pyfloat \<Rightarrow> pyfloat" where
  "fsub a b = fadd a (fneg b)"

text \<open>
  \<open>f"{x:,.2f}"\<close>: the exact value of \<open>x\<close> rounded to two decimal places, ties to even,
  written with a minus sign for a negative \<open>x\<close> (also when it rounds to zero), a comma
  between groups of three digits of the integer part, a point and two decimals.
\<close>

definition digit_char :: "nat \<Rightarrow> char" where
  "digit_char n = ''0123456789'' ! n"

function nat_digits :: "nat \<Rightarrow> string" where
  "nat_digits n =
     (if n < 10 then [digit_char n] else nat_digits (n div 10) @ [digit_char (n mod 10)])"
  by pat_completeness auto
termination
  by (relation "measure id") auto

declare nat_digits.simps [simp del]

function group_thousands :: "string \<Rightarrow> string" where
  "group_thousands s =
     (if length s \<le> 3 then s
      else group_thousands (take (length s - 3) s) @ '','' @ drop (length s - 3) s)"
  by pat_completeness auto
termination
  by (relation "measure length") auto

declare group_thousands.simps [simp del]

definition format_2f :: "real \<Rightarrow> string" where
  "format_2f x =
     (let n = nat (rne (\<bar>x\<bar> * 100))
      in (if x < 0 then ''-'' else [])
         @ group_thousands (nat_digits (n div 100))
         @ ''.'' @ [digit_char (n mod 100 div 10), digit_char (n mod 10)])"

fun py_format_2f :: "pyfloat \<Rightarrow> string" where
  "py_format_2f (Fin x) = format_2f x"
| "py_format_2f PInf = ''inf''"
| "py_format_2f NInf = ''-inf''"
| "py_format_2f NaN = ''nan''"

section \<open>Text primitives\<close>

text \<open>
  The statement text is modelled as \<open>string\<close>: every \<open>char\<close> stands for one code point
  of the Latin-1 range, so the non-breaking space is \<open>CHR 0xA0\<close>. In that range the
  regular-expression class \<open>\d\<close> is exactly \<open>0\<close> to \<open>9\<close>, and Python's white space
  (\<open>\s\<close>, \<open>str.strip\<close>, \<open>str.split()\<close>) is the twelve characters of \<open>is_space\<close>.
  Case conversion is modelled on the ASCII letters; amounts are exact decimal values
  (\<open>real\<close>), binary rounding of Python's \<open>float\<close> is not modelled.
\<close>

datatype py_error = ValueError | NameError

definition is_digit :: "char \<Rightarrow> bool" where
  "is_digit c = (c \<in> set ''0123456789'')"

definition is_alpha :: "char \<Rightarrow> bool" where
  "is_alpha c = (c \<in> set ''ABCDEFGHIJKLMNOPQRSTUVWXYZabcdefghijklmnopqrstuvwxyz'')"

definition is_space :: "char \<Rightarrow> bool" where
  "is_space c = (c \<in> set [CHR 0x09, CHR 0x0A, CHR 0x0B, CHR 0x0C, CHR 0x0D, CHR 0x1C,
                           CHR 0x1D, CHR 0x1E, CHR 0x1F, CHR 0x20, CHR 0x85, CHR 0xA0])"

definition upper_char :: "char \<Rightarrow> char" where
  "upper_char c =
     (case map_of (zip ''abcdefghijklmnopqrstuvwxyz'' ''ABCDEFGHIJKLMNOPQRSTUVWXYZ'') c of
        Some u \<Rightarrow> u | None \<Rightarrow> c)"

definition lower_char :: "char \<Rightarrow> char" where
  "lower_char c =
     (case map_of (zip ''ABCDEFGHIJKLMNOPQRSTUVWXYZ'' ''abcdefghijklmnopqrstuvwxyz'') c of
        Some u \<Rightarrow> u | None \<Rightarrow> c)"

definition py_upper :: "string \<Rightarrow> string" where
  "py_upper s = map upper_char s"

definition py_lower :: "string \<Rightarrow> string" where
  "py_lower s = map lower_char s"

definition py_strip :: "string \<Rightarrow> string" where
  "py_strip s = rev (dropWhile is_space (rev (dropWhile is_space s)))"

text \<open>
  \<open>str.replace(old, new)\<close>: the occurrences of \<open>old\<close> are found from the left and do
  not overlap. Every call in the source has a non-empty \<open>old\<close>; for an empty one the
  model returns the string as it is.
\<close>

fun py_replace :: "'a list \<Rightarrow> 'a list \<Rightarrow> 'a list \<Rightarrow> 'a list" where
  "py_replace old new [] = []"
| "py_replace old new (c # cs) =
     (if old \<noteq> [] \<and> prefix old (c # cs)
      then new @ py_replace old new (drop (length old) (c # cs))
      else c # py_replace old new cs)"

section \<open>AmountToken: \<open>_parse_amount\<close>\<close>

definition digit_val :: "char \<Rightarrow> nat" where
  "digit_val c =
     (case map_of (zip ''0123456789'' [0, 1, 2, 3, 4, 5, 6, 7, 8, 9]) c of
        Some n \<Rightarrow> n | None \<Rightarrow> 0)"

definition digits_value :: "string \<Rightarrow> nat" where
  "digits_value ds = foldl (\<lambda>n c. 10 * n + digit_val c) 0 ds"

text \<open>
  \<open>float(s)\<close> on the strings that reach it in \<open>_parse_amount\<close>, which consist of
  digits, points and minus signs only: an optional leading minus, then digits with an
  optional point and further digits, or a point followed by digits. Anything else raises
  \<open>ValueError\<close>.
\<close>

definition py_float_unsigned :: "string \<Rightarrow> py_error + real" where
  "py_float_unsigned body =
     (let ip = takeWhile is_digit body;
          rest = dropWhile is_digit body
      in case rest of
           [] \<Rightarrow> if ip = [] then Inl ValueError else Inr (real (digits_value ip))
         | c # fp \<Rightarrow>
             if c = CHR ''.'' \<and> list_all is_digit fp \<and> (ip \<noteq> [] \<or> fp \<noteq> [])
             then Inr (real (digits_value ip) + real (digits_value fp) / 10 ^ length fp)
             else Inl ValueError)"

definition py_float :: "string \<Rightarrow> py_error + real" where
  "py_float s =
     (case s of
        [] \<Rightarrow> py_float_unsigned []
      | c # r \<Rightarrow>
          if c = CHR ''-''
          then (case py_float_unsigned r of Inl e \<Rightarrow> Inl e | Inr v \<Rightarrow> Inr (- v))
          else py_float_unsigned s)"

definition amount_char :: "char \<Rightarrow> bool" where
  "amount_char c = (is_digit c \<or> c = CHR ''.'' \<or> c = CHR ''-'')"

text \<open>
  The body of \<open>_parse_amount\<close>; \<open>filter amount_char\<close> is
  \<open>re.sub(r"[^\d\.-]", "", s)\<close>. The last \<open>case\<close> is the \<open>try\<close> statement: the
  handler turns every exception of \<open>float\<close> into \<open>0.0\<close>.
\<close>

definition parse_amount :: "string \<Rightarrow> py_error + real" where
  "parse_amount text =
     (if text = [] then Inr 0
      else
        let s = py_upper text;
            s = py_replace ''DR'' [] (py_replace ''CR'' [] s);
            s = py_replace '','' [] s;
            s = py_replace [CHR 0xA0] '' '' s;
            s = py_replace '')'' [] (py_replace ''('' ''-'' s);
            s = py_strip (filter amount_char s)
        in case (if s \<notin> set ['''', ''-'', ''.''] then py_float s else Inr 0) of
             Inl e \<Rightarrow> Inr 0
           | Inr v \<Rightarrow> Inr v)"

definition amount_of :: "string \<Rightarrow> real" where
  "amount_of text = (case parse_amount text of Inr v \<Rightarrow> v | Inl e \<Rightarrow> 0)"

text \<open>
  The rule sequence of the specification, rule by rule: upper-case; strip a \<open>CR\<close> or
  \<open>DR\<close> suffix; strip thousands separators; turn a non-breaking space into a space; a
  parenthesised value becomes a negated one (the opening parenthesis is its minus sign,
  the closing one goes); strip what is left outside \<open>[0-9.-]\<close>; the empty string,
  \<open>-\<close> and \<open>.\<close> are \<open>0.0\<close>; otherwise the decimal value, a malformed one degrading
  to \<open>0.0\<close>.
\<close>

definition strip_crdr_suffix :: "string \<Rightarrow> string" where
  "strip_crdr_suffix s =
     (if suffix ''CR'' s \<or> suffix ''DR'' s then take (length s - 2) s else s)"

definition negate_parenthesised :: "string \<Rightarrow> string" where
  "negate_parenthesised s =
     map (\<lambda>c. if c = CHR ''('' then CHR ''-'' else c) (filter (\<lambda>c. c \<noteq> CHR '')'') s)"

definition decimal_or_zero :: "string \<Rightarrow> real" where
  "decimal_or_zero s = (case py_float s of Inr v \<Rightarrow> v | Inl e \<Rightarrow> 0)"

definition amount_token_rules :: "string \<Rightarrow> real" where
  "amount_token_rules text =
     (let s = py_upper text;
          s = strip_crdr_suffix s;
          s = filter (\<lambda>c. c \<noteq> CHR '','') s;
          s = map (\<lambda>c. if c = CHR 0xA0 then CHR '' '' else c) s;
          s = negate_parenthesised s;
          s = filter amount_char s
      in if s = '''' \<or> s = ''-'' \<or> s = ''.'' then 0 else decimal_or_zero s)"

text \<open>
  A proof device: the characters that survive the cleaning steps of \<open>_parse_amount\<close>
  are the amount characters and the opening parenthesis, which becomes a minus sign.
\<close>

definition amount_or_open :: "char \<Rightarrow> bool" where
  "amount_or_open c = (amount_char c \<or> c = CHR ''('')"

section \<open>AmountToken on Unicode text\<close>

text \<open>
  A Python string is a sequence of Unicode code points, here a list of natural numbers;
  \<open>code_points\<close> embeds the Latin-1 texts of the parser model. The regular-expression
  class \<open>\d\<close> and \<open>float\<close> both take every character of the category \<open>Nd\<close> as a decimal
  digit. These characters come in runs of ten, for the digits zero to nine of a script;
  \<open>unicode_zero_digits\<close> lists the first code point of each run (Unicode 14, the table
  of CPython 3.11).
\<close>

definition code_points :: "string \<Rightarrow> nat list" where
  "code_points s = map of_char s"

definition unicode_zero_digits :: "nat list" where
  "unicode_zero_digits =
     [0x30, 0x660, 0x6F0, 0x7C0, 0x966, 0x9E6, 0xA66, 0xAE6, 0xB66, 0xBE6, 0xC66,
      0xCE6, 0xD66, 0xDE6, 0xE50, 0xED0, 0xF20, 0x1040, 0x1090, 0x17E0, 0x1810,
      0x1946, 0x19D0, 0x1A80, 0x1A90, 0x1B50, 0x1BB0, 0x1C40, 0x1C50, 0xA620, 0xA8D0,
      0xA900, 0xA9D0, 0xA9F0, 0xAA50, 0xABF0, 0xFF10, 0x104A0, 0x10D30, 0x11066,
      0x110F0, 0x11136, 0x111D0, 0x112F0, 0x11450, 0x114D0, 0x11650, 0x116C0,
      0x11730, 0x118E0, 0x11950, 0x11C50, 0x11D50, 0x11DA0, 0x16A60, 0x16AC0,
      0x16B50, 0x1D7CE, 0x1D7D8, 0x1D7E2, 0x1D7EC, 0x1D7F6, 0x1E140, 0x1E2F0,
      0x1E950, 0x1FBF0]"

definition is_decimal_digit :: "nat \<Rightarrow> bool" where
  "is_decimal_digit c = list_ex (\<lambda>z. z \<le> c \<and> c < z + 10) unicode_zero_digits"

definition decimal_digit_value :: "nat \<Rightarrow> nat" where
  "decimal_digit_value c =
     (case find (\<lambda>z. z \<le> c \<and> c < z + 10) unicode_zero_digits of
        Some z \<Rightarrow> c - z | None \<Rightarrow> 0)"

text \<open>The characters that \<open>str.strip()\<close> removes, those with \<open>str.isspace()\<close>.\<close>

definition whitespace_code_points :: "nat list" where
  "whitespace_code_points =
     [0x9, 0xA, 0xB, 0xC, 0xD, 0x1C, 0x1D, 0x1E, 0x1F, 0x20, 0x85, 0xA0, 0x1680,
      0x2000, 0x2001, 0x2002, 0x2003, 0x2004, 0x2005, 0x2006, 0x2007, 0x2008, 0x2009,
      0x200A, 0x2028, 0x2029, 0x202F, 0x205F, 0x3000]"

definition is_whitespace :: "nat \<Rightarrow> bool" where
  "is_whitespace c = (c \<in> set whitespace_code_points)"

definition strip_whitespace :: "nat list \<Rightarrow> nat list" where
  "strip_whitespace s = rev (dropWhile is_whitespace (rev (dropWhile is_whitespace s)))"

text \<open>
  \<open>str.upper()\<close> is given character by character, a character becoming one or more
  characters. \<open>ascii_upper\<close> is its restriction to the ASCII letters, every other
  character being left as it is. \<open>str.upper()\<close> changes cased letters only, into letters,
  so it maps digits, points, minus signs and parentheses to themselves and nothing else
  to one of them; \<open>parse_amount_with\<close> gives the same result for every case conversion
  with that property (lemma \<open>parse_amount_with_case_irrelevant\<close> below).
\<close>

definition ascii_upper :: "nat \<Rightarrow> nat list" where
  "ascii_upper c = (if 0x61 \<le> c \<and> c \<le> 0x7A then [c - 0x20] else [c])"

text \<open>
  \<open>float(s)\<close> on the strings that reach it in \<open>_parse_amount\<close>, which consist of decimal
  digits, points and minus signs only: an optional leading minus, then digits with an
  optional point and further digits, or a point followed by digits; every digit counts
  with its digit value. Anything else raises \<open>ValueError\<close>. The result is the float
  nearest to the decimal value, an infinity if that is beyond the largest float.
\<close>

definition digits_number :: "nat list \<Rightarrow> nat" where
  "digits_number ds = foldl (\<lambda>n c. 10 * n + decimal_digit_value c) 0 ds"

definition decimal_unsigned :: "nat list \<Rightarrow> real option" where
  "decimal_unsigned body =
     (let ip = takeWhile is_decimal_digit body;
          rest = dropWhile is_decimal_digit body
      in case rest of
           [] \<Rightarrow> if ip = [] then None else Some (real (digits_number ip))
         | c # fp \<Rightarrow>
             if c = 0x2E \<and> list_all is_decimal_digit fp \<and> (ip \<noteq> [] \<or> fp \<noteq> [])
             then Some (real (digits_number ip) + real (digits_number fp) / 10 ^ length fp)
             else None)"

definition decimal_of :: "nat list \<Rightarrow> real option" where
  "decimal_of s =
     (case s of
        [] \<Rightarrow> None
      | c # r \<Rightarrow> if c = 0x2D then map_option uminus (decimal_unsigned r) else decimal_unsigned s)"

definition float_of_text :: "nat list \<Rightarrow> py_error + pyfloat" where
  "float_of_text s = (case decimal_of s of None \<Rightarrow> Inl ValueError | Some x \<Rightarrow> Inr (to_float x))"

definition amount_code_point :: "nat \<Rightarrow> bool" where
  "amount_code_point c = (is_decimal_digit c \<or> c = 0x2E \<or> c = 0x2D)"

text \<open>
  The body of \<open>_parse_amount\<close> for the case conversion \<open>up\<close>; \<open>filter amount_code_point\<close>
  is \<open>re.sub(r"[^\d\.-]", "", s)\<close>. The last \<open>case\<close> is the \<open>try\<close> statement: the handler
  turns every exception of \<open>float\<close> into \<open>0.0\<close>.
\<close>

definition parse_amount_with :: "(nat \<Rightarrow> nat list) \<Rightarrow> nat list \<Rightarrow> py_error + pyfloat" where
  "parse_amount_with up text =
     (if text = [] then Inr (Fin 0)
      else
        let s = concat (map up text);
            s = py_replace (code_points ''DR'') [] (py_replace (code_points ''CR'') [] s);
            s = py_replace (code_points '','') [] s;
            s = py_replace [0xA0] (code_points '' '') s;
            s = py_replace (code_points '')'') [] (py_replace (code_points ''('') (code_points ''-'') s);
            s = strip_whitespace (filter amount_code_point s)
        in case (if s \<notin> set [[], code_points ''-'', code_points ''.'']
                 then float_of_text s else Inr (Fin 0)) of
             Inl e \<Rightarrow> Inr (Fin 0)
           | Inr v \<Rightarrow> Inr v)"

definition parse_amount_unicode :: "nat list \<Rightarrow> py_error + pyfloat" where
  "parse_amount_unicode text = parse_amount_with ascii_upper text"

text \<open>
  The rule sequence as the specification words it, rule by rule: upper-case; strip a \<open>CR\<close>
  or \<open>DR\<close> suffix; strip thousands separators; turn a non-breaking space into a space; a
  value in parentheses becomes the negated value; strip what is left outside \<open>[0-9.-]\<close>;
  the empty string, \<open>-\<close> and \<open>.\<close> are zero; otherwise the decimal value, a malformed one
  degrading to zero.
\<close>

definition strip_suffix_crdr :: "nat list \<Rightarrow> nat list" where
  "strip_suffix_crdr s =
     (if suffix (code_points ''CR'') s \<or> suffix (code_points ''DR'') s
      then take (length s - 2) s else s)"

definition is_ascii_digit :: "nat \<Rightarrow> bool" where
  "is_ascii_digit c = (0x30 \<le> c \<and> c \<le> 0x39)"

definition negate_value_in_parentheses :: "nat list \<Rightarrow> nat list" where
  "negate_value_in_parentheses s =
     (if 2 \<le> length s \<and> hd s = 0x28 \<and> last s = 0x29 then 0x2D # butlast (tl s) else s)"

definition claimed_amount_rules :: "nat list \<Rightarrow> real" where
  "claimed_amount_rules text =
     (let s = concat (map ascii_upper text);
          s = strip_suffix_crdr s;
          s = filter (\<lambda>c. c \<noteq> 0x2C) s;
          s = map (\<lambda>c. if c = 0xA0 then 0x20 else c) s;
          s = negate_value_in_parentheses s;
          s = filter (\<lambda>c. is_ascii_digit c \<or> c = 0x2E \<or> c = 0x2D) s
      in if s = [] \<or> s = code_points ''-'' \<or> s = code_points ''.'' then 0
         else case decimal_of s of Some x \<Rightarrow> x | None \<Rightarrow> 0)"

text \<open>
  The rule sequence as amended: every opening parenthesis becomes a minus sign and every
  closing one goes; what is stripped is what is outside \<open>[\d.-]\<close>, with every Unicode
  decimal digit in \<open>\d\<close>; the value is the float nearest to the decimal value, or an
  infinity.
\<close>

definition open_to_minus :: "nat list \<Rightarrow> nat list" where
  "open_to_minus s = map (\<lambda>c. if c = 0x28 then 0x2D else c) (filter (\<lambda>c. c \<noteq> 0x29) s)"

definition float_or_zero :: "nat list \<Rightarrow> pyfloat" where
  "float_or_zero s = (case float_of_text s of Inr v \<Rightarrow> v | Inl e \<Rightarrow> Fin 0)"

definition amount_token_rules_with :: "(nat \<Rightarrow> nat list) \<Rightarrow> nat list \<Rightarrow> pyfloat" where
  "amount_token_rules_with up text =
     (let s = concat (map up text);
          s = strip_suffix_crdr s;
          s = filter (\<lambda>c. c \<noteq> 0x2C) s;
          s = map (\<lambda>c. if c = 0xA0 then 0x20 else c) s;
          s = open_to_minus s;
          s = filter amount_code_point s
      in if s = [] \<or> s = code_points ''-'' \<or> s = code_points ''.'' then Fin 0
         else float_or_zero s)"

definition amount_token_rules_unicode :: "nat list \<Rightarrow> pyfloat" where
  "amount_token_rules_unicode text = amount_token_rules_with ascii_upper text"

text \<open>
  A proof device: the characters that survive the cleaning steps of \<open>_parse_amount\<close>
  are the amount characters and the opening parenthesis, which becomes a minus sign.
\<close>

definition amount_or_open_code_point :: "nat \<Rightarrow> bool" where
  "amount_or_open_code_point c = (amount_code_point c \<or> c = 0x28)"

definition keeps_amount_characters :: "(nat \<Rightarrow> nat list) \<Rightarrow> bool" where
  "keeps_amount_characters up =
     (\<forall>c. filter amount_or_open_code_point (up c) = filter amount_or_open_code_point [c])"

section \<open>Regular expressions\<close>

text \<open>
  The patterns of the source are terms of \<open>rx\<close>; \<open>Cls p\<close> is a character class and
  \<open>Eol\<close> is \<open>$\<close>, which holds at the end of the text and before a final newline.
  \<open>rx_rems r s\<close> lists what is left of \<open>s\<close> after each way \<open>r\<close> can match at its
  start, in the order in which Python's backtracking matcher tries them: the left
  alternative before the right one, one more repetition before stopping. The first
  element is therefore the match that \<open>re.match\<close> reports. An iteration of a star that
  consumes nothing is not repeated.
\<close>

datatype rx = Eps | Cls "char \<Rightarrow> bool" | Cat rx rx | Alt rx rx | Star rx | Eol

function rx_rems :: "rx \<Rightarrow> string \<Rightarrow> string list" where
  "rx_rems Eps s = [s]"
| "rx_rems (Cls p) s = (case s of [] \<Rightarrow> [] | c # cs \<Rightarrow> if p c then [cs] else [])"
| "rx_rems (Cat a b) s = concat (map (rx_rems b) (rx_rems a s))"
| "rx_rems (Alt a b) s = rx_rems a s @ rx_rems b s"
| "rx_rems (Star a) s =
     concat (map (\<lambda>t. if length t < length s then rx_rems (Star a) t else []) (rx_rems a s)) @ [s]"
| "rx_rems Eol s = (if s = [] \<or> s = [CHR 0x0A] then [s] else [])"
  by pat_completeness auto
termination
  by (relation "inv_image (less_than <*lex*> less_than) (\<lambda>(r, s). (size r, length s))") auto

declare rx_rems.simps(5) [simp del]

definition rx_seq :: "rx list \<Rightarrow> rx" where
  "rx_seq rs = foldr Cat rs Eps"

definition rx_plus :: "rx \<Rightarrow> rx" where
  "rx_plus r = Cat r (Star r)"

definition rx_opt :: "rx \<Rightarrow> rx" where
  "rx_opt r = Alt r Eps"

definition rx_lit :: "string \<Rightarrow> rx" where
  "rx_lit s = rx_seq (map (\<lambda>c. Cls (\<lambda>x. x = c)) s)"

definition re_match :: "rx \<Rightarrow> string \<Rightarrow> bool" where
  "re_match r s = (rx_rems r s \<noteq> [])"

section \<open>LineNormalizer: \<open>_normalize_multiline_dates\<close>\<close>

definition day_mon_re :: rx where
  "day_mon_re = rx_seq [Cls is_digit, rx_opt (Cls is_digit), rx_plus (Cls is_space),
                        Cls is_alpha, Cls is_alpha, Cls is_alpha, Eol]"

definition year_re :: rx where
  "year_re = rx_seq [Cls is_digit, Cls is_digit, Cls is_digit, Cls is_digit, Eol]"

definition short_day_re :: rx where
  "short_day_re = rx_seq [Cls is_digit, rx_opt (Cls is_digit), Eol]"

definition short_mon_re :: rx where
  "short_mon_re = rx_seq [Cls is_alpha, Cls is_alpha, Cls is_alpha, Eol]"

text \<open>
  The \<open>while\<close> loop over the index \<open>i\<close>: the argument is \<open>lines[i:]\<close>, so \<open>rest\<close> is
  \<open>lines[i+1:]\<close>, and \<open>i + 1 < len(lines)\<close> says that \<open>rest\<close> has an element.
\<close>

fun normalize_multiline_dates :: "string list \<Rightarrow> string list" where
  "normalize_multiline_dates [] = []"
| "normalize_multiline_dates (line # rest) =
     (if 1 \<le> length rest \<and> re_match day_mon_re line \<and> re_match year_re (rest ! 0)
      then (line @ '' '' @ rest ! 0) # normalize_multiline_dates (drop 1 rest)
      else if 2 \<le> length rest \<and> re_match short_day_re line \<and> re_match short_mon_re (rest ! 0)
              \<and> re_match year_re (rest ! 1)
      then (line @ '' '' @ rest ! 0 @ '' '' @ rest ! 1) # normalize_multiline_dates (drop 2 rest)
      else line # normalize_multiline_dates rest)"

text \<open>
  Proof devices: a line that ends in a letter, possibly before a final newline, and a line
  that none of the four date patterns matches.
\<close>

definition ends_alpha :: "string \<Rightarrow> bool" where
  "ends_alpha s = (s \<noteq> [] \<and> (is_alpha (last s)
       \<or> (last s = CHR 0x0A \<and> butlast s \<noteq> [] \<and> is_alpha (last (butlast s)))))"

definition inert :: "string \<Rightarrow> bool" where
  "inert m = (\<not> re_match day_mon_re m \<and> \<not> re_match year_re m
              \<and> \<not> re_match short_day_re m \<and> \<not> re_match short_mon_re m)"

section \<open>More text primitives\<close>

fun py_in :: "string \<Rightarrow> string \<Rightarrow> bool" where
  "py_in sub [] = (sub = [])"
| "py_in sub (c # cs) = (prefix sub (c # cs) \<or> py_in sub cs)"

fun py_join :: "string \<Rightarrow> string list \<Rightarrow> string" where
  "py_join sep [] = []"
| "py_join sep [x] = x"
| "py_join sep (x # y # zs) = x @ sep @ py_join sep (y # zs)"

text \<open>
  \<open>s.split(sep)\<close> for a non-empty \<open>sep\<close>; the result always has at least one piece, so
  the empty case of the inner \<open>case\<close> is never taken.
\<close>

fun py_split :: "string \<Rightarrow> string \<Rightarrow> string list" where
  "py_split sep [] = [[]]"
| "py_split sep (c # cs) =
     (if sep \<noteq> [] \<and> prefix sep (c # cs)
      then [] # py_split sep (drop (length sep) (c # cs))
      else (case py_split sep cs of [] \<Rightarrow> [[c]] | p # ps \<Rightarrow> (c # p) # ps))"

text \<open>\<open>re.split\<close> with a pattern that is an alternative of single characters.\<close>

fun re_split_chars :: "(char \<Rightarrow> bool) \<Rightarrow> string \<Rightarrow> string list" where
  "re_split_chars P [] = [[]]"
| "re_split_chars P (c # cs) =
     (if P c then [] # re_split_chars P cs
      else (case re_split_chars P cs of [] \<Rightarrow> [[c]] | p # ps \<Rightarrow> (c # p) # ps))"

text \<open>\<open>s.split(None, 1)\<close>: the first word, and the rest of the text after the white space that follows it.\<close>

definition py_split_ws1 :: "string \<Rightarrow> string list" where
  "py_split_ws1 s =
     (let s1 = dropWhile is_space s in
      if s1 = [] then []
      else let w = takeWhile (\<lambda>c. \<not> is_space c) s1;
               r = dropWhile is_space (dropWhile (\<lambda>c. \<not> is_space c) s1)
           in if r = [] then [w] else [w, r])"

text \<open>
  \<open>finditer\<close> and \<open>sub\<close> scan the text from the left: where the pattern matches, the match
  is taken and the scan goes on behind it, elsewhere it moves on by one character. The
  second argument of \<open>rx_finditer_from\<close> is the position of the text that is left. No
  pattern that the source searches for matches the empty text; on such a match the model
  moves on by one character.
\<close>

function rx_finditer_from :: "rx \<Rightarrow> nat \<Rightarrow> string \<Rightarrow> (string \<times> nat \<times> nat) list" where
  "rx_finditer_from r pos s =
     (if s = [] then []
      else case rx_rems r s of
             [] \<Rightarrow> rx_finditer_from r (pos + 1) (tl s)
           | t # _ \<Rightarrow>
               (let n = length s - length t in
                if n = 0 then rx_finditer_from r (pos + 1) (tl s)
                else (take n s, pos, pos + n) # rx_finditer_from r (pos + n) (drop n s)))"
  by pat_completeness auto
termination
  by (relation "measure (\<lambda>(r, pos, s). length s)") auto

declare rx_finditer_from.simps [simp del]

definition rx_finditer :: "rx \<Rightarrow> string \<Rightarrow> (string \<times> nat \<times> nat) list" where
  "rx_finditer r s = rx_finditer_from r 0 s"

definition rx_findall :: "rx \<Rightarrow> string \<Rightarrow> string list" where
  "rx_findall r s = map fst (rx_finditer r s)"

function rx_sub :: "rx \<Rightarrow> string \<Rightarrow> string \<Rightarrow> string" where
  "rx_sub r repl s =
     (if s = [] then []
      else case rx_rems r s of
             [] \<Rightarrow> hd s # rx_sub r repl (tl s)
           | t # _ \<Rightarrow>
               (let n = length s - length t in
                if n = 0 then hd s # rx_sub r repl (tl s)
                else repl @ rx_sub r repl (drop n s)))"
  by pat_completeness auto
termination
  by (relation "measure (\<lambda>(r, repl, s). length s)") auto

declare rx_sub.simps [simp del]

definition amt_re :: rx where
  "amt_re = rx_seq [Cls is_digit, rx_opt (Cat (Cls is_digit) (rx_opt (Cls is_digit))),
                    Star (rx_seq [Cls (\<lambda>c. c = CHR '',''), Cls is_digit, Cls is_digit, Cls is_digit]),
                    Cls (\<lambda>c. c = CHR ''.''), Cls is_digit, Cls is_digit,
                    rx_opt (Alt (rx_lit ''CR'') (rx_lit ''DR''))]"

section \<open>Data model\<close>

record txn =
  date :: string
  value_date :: string
  description :: string
  description_line1 :: string
  description_line2 :: string
  cheque_ref :: string
  debit :: real
  credit :: real
  balance :: real
  orig_debit_text :: string
  orig_credit_text :: string
  orig_balance_text :: string

record statement_meta =
  account_name :: string
  account_number :: string
  period :: string
  opening_balance :: real
  bank :: string
  layout :: string

record parsed_statement =
  meta :: statement_meta
  transactions :: "txn list"

definition SBI_POST_VALUE :: string where "SBI_POST_VALUE = ''SBI_POST_VALUE''"
definition SBI_TXN_VALUE :: string where "SBI_TXN_VALUE = ''SBI_TXN_VALUE''"
definition SBI_DATE_DETAILS :: string where "SBI_DATE_DETAILS = ''SBI_DATE_DETAILS''"

section \<open>MetadataExtractor\<close>

text \<open>
  The first loop of both parsers. The dictionary \<open>meta\<close> gets its \<open>bank\<close> and \<open>layout\<close>
  entries only at the end of a parser; until then the two fields are empty.
\<close>

definition meta_init :: statement_meta where
  "meta_init = \<lparr>account_name = [], account_number = [], period = [], opening_balance = 0,
                 bank = [], layout = []\<rparr>"

definition meta_step :: "statement_meta \<Rightarrow> string \<Rightarrow> statement_meta" where
  "meta_step m line =
     (let m = (if prefix ''Mrs.'' line \<or> prefix ''Mr.'' line \<or> prefix ''M/s'' line
                  \<or> prefix ''Ms.'' line
               then m\<lparr>account_name := line\<rparr> else m);
          m = (if py_in ''Account No'' line
               then m\<lparr>account_number := py_strip (last (py_split ''Account No'' line))\<rparr>
               else m);
          m = (if py_in ''Statement From'' line
               then m\<lparr>period :=
                      py_strip (py_replace '':'' [] (last (py_split ''Statement From'' line)))\<rparr>
               else m)
      in if prefix ''BROUGHT FORWARD'' (py_upper line) \<or> prefix ''BALANCE B/F'' (py_upper line)
         then (let p = rx_findall amt_re line
               in if p \<noteq> [] then m\<lparr>opening_balance := amount_of (last p)\<rparr> else m)
         else m)"

definition extract_meta :: "string list \<Rightarrow> statement_meta" where
  "extract_meta lines = foldl meta_step meta_init lines"

section \<open>TransactionSegmenter, PostValue variant\<close>

definition date_token :: rx where
  "date_token =
     Alt (rx_seq [Cls is_digit, Cls is_digit, Cls (\<lambda>c. c \<in> set ''-/''),
                  Cls is_digit, Cls is_digit, Cls (\<lambda>c. c \<in> set ''-/''),
                  Cls is_digit, Cls is_digit, Cls is_digit, Cls is_digit])
         (rx_seq [Cls is_digit, rx_opt (Cls is_digit), rx_plus (Cls is_space),
                  Cls is_alpha, Cls is_alpha, Cls is_alpha, rx_plus (Cls is_space),
                  Cls is_digit, Cls is_digit, Cls is_digit, Cls is_digit])"

text \<open>
  \<open>date_line_pattern.match(line)\<close>: the pattern is a date, white space and a date. The
  result is group 1, group 2 and \<open>line[m.end():]\<close> of the first match in backtracking
  order.
\<close>

definition date_line_match :: "string \<Rightarrow> (string \<times> string \<times> string) option" where
  "date_line_match line =
     (case concat (map (\<lambda>s1. concat (map (\<lambda>s2. map (\<lambda>s3. (s1, s2, s3)) (rx_rems date_token s2))
                                         (rx_rems (rx_plus (Cls is_space)) s1)))
                       (rx_rems date_token line)) of
        [] \<Rightarrow> None
      | (s1, s2, s3) # _ \<Rightarrow>
          Some (take (length line - length s1) line, take (length s2 - length s3) s2, s3))"

record raw_block =
  b_date :: string
  b_value_date :: string
  b_lines :: "string list"

record seg_state =
  header_seen :: bool
  in_table :: bool
  current :: "raw_block option"
  transactions_raw :: "raw_block list"

definition seg_init :: seg_state where
  "seg_init = \<lparr>header_seen = False, in_table = False, current = None, transactions_raw = []\<rparr>"

text \<open>\<open>if current: transactions_raw.append(current)\<close>\<close>

definition flush_current :: "seg_state \<Rightarrow> raw_block list" where
  "flush_current st =
     (case current st of None \<Rightarrow> transactions_raw st | Some c \<Rightarrow> transactions_raw st @ [c])"

text \<open>One turn of the second loop of \<open>_parse_sbi_post_value\<close>.\<close>

definition seg_step :: "seg_state \<Rightarrow> string \<Rightarrow> seg_state" where
  "seg_step st line =
     (let u = py_upper line in
      if py_in ''POST DATE'' u \<and> py_in ''VALUE DATE'' u \<and> py_in ''DESCRIPTION'' u
      then st\<lparr>header_seen := True\<rparr>
      else if header_seen st \<and> (py_in ''DEBIT'' u \<and> py_in ''CREDIT'' u \<and> py_in ''BALANCE'' u)
      then st\<lparr>in_table := True\<rparr>
      else if \<not> in_table st then st
      else (case date_line_match line of
              Some (d1, d2, rest) \<Rightarrow>
                (let tail = py_strip rest
                 in st\<lparr>transactions_raw := flush_current st,
                       current := Some \<lparr>b_date = d1, b_value_date = d2,
                                         b_lines = (if tail \<noteq> [] then [tail] else [])\<rparr>\<rparr>)
            | None \<Rightarrow>
                if prefix ''page'' (py_lower line) then st
                else (case current st of
                        None \<Rightarrow> st
                      | Some c \<Rightarrow> st\<lparr>current := Some (c\<lparr>b_lines := b_lines c @ [line]\<rparr>)\<rparr>)))"

definition segment_post_value :: "string list \<Rightarrow> raw_block list" where
  "segment_post_value lines = flush_current (foldl seg_step seg_init lines)"

section \<open>TransactionClassifier, PostValue variant\<close>

definition post_value_debit_keys :: "string list" where
  "post_value_debit_keys = [''WDL'', ''UPI/DR'', ''IMPS/DR'', ''ATM WDL'', ''POS/'', ''/DR/'']"

text \<open>
  The body of the third loop of \<open>_parse_sbi_post_value\<close>. Of the delimiters of
  \<open>re.split\<close> only the bar and the slash are Latin-1 characters.
\<close>

definition post_value_record :: "raw_block \<Rightarrow> txn" where
  "post_value_record block =
     (let merged = py_strip (rx_sub (rx_plus (Cls is_space)) '' '' (py_join '' '' (b_lines block)));
          amounts = rx_finditer amt_re merged
      in if amounts \<noteq> [] then
           (let balance_tok = fst (last amounts);
                bal = amount_of balance_tok;
                (amt_tok, a_start) =
                   (if 2 \<le> length amounts
                    then (fst (amounts ! (length amounts - 2)),
                          fst (snd (amounts ! (length amounts - 2))))
                    else (fst (amounts ! 0), fst (snd (amounts ! 0))));
                desc = py_strip (take a_start merged);
                parts = filter (\<lambda>p. p \<noteq> [])
                          (map py_strip (re_split_chars (\<lambda>c. c \<in> set ''|/'') desc));
                (desc_line1, desc_line2) =
                   (if parts \<noteq> []
                    then (hd parts, if 1 < length parts then py_join '' '' (tl parts) else [])
                    else (let p = py_split_ws1 desc
                          in (if p \<noteq> [] then p ! 0 else [], if 1 < length p then p ! 1 else [])));
                desc_upper = py_upper (desc_line1 @ '' '' @ desc_line2);
                is_debit = list_ex (\<lambda>k. py_in k desc_upper) post_value_debit_keys
            in \<lparr>date = b_date block, value_date = b_value_date block,
                description =
                  py_strip (desc_line1 @ (if desc_line2 \<noteq> [] then [CHR 0x0A] @ desc_line2 else [])),
                description_line1 = desc_line1, description_line2 = desc_line2,
                cheque_ref = [],
                debit = (if is_debit then amount_of amt_tok else 0),
                credit = (if is_debit then 0 else amount_of amt_tok),
                balance = bal,
                orig_debit_text = [], orig_credit_text = [], orig_balance_text = balance_tok\<rparr>)
         else
           \<lparr>date = b_date block, value_date = b_value_date block,
            description = [], description_line1 = [], description_line2 = [],
            cheque_ref = [], debit = 0, credit = 0, balance = 0,
            orig_debit_text = [], orig_credit_text = [], orig_balance_text = []\<rparr>)"

text \<open>
  \<open>_parse_sbi_post_value\<close> on the lines that \<open>_extract_all_lines\<close> has read from the
  document; \<open>post_value_transactions\<close> is its second and third loop, on the normalised
  lines.
\<close>

definition post_value_transactions :: "string list \<Rightarrow> txn list" where
  "post_value_transactions lines = map post_value_record (segment_post_value lines)"

definition parse_sbi_post_value :: "string list \<Rightarrow> parsed_statement" where
  "parse_sbi_post_value raw_lines =
     (let lines = normalize_multiline_dates raw_lines;
          m = extract_meta lines;
          txns = post_value_transactions lines
      in \<lparr>meta = m\<lparr>bank := ''SBI'', layout := SBI_POST_VALUE\<rparr>, transactions = txns\<rparr>)"

section \<open>TransactionClassifier, TxnValue variant\<close>

text \<open>
  Of \<open>_parse_sbi_txn_value\<close> the model has the end of the loop over the blocks, where the
  movement is classified and the record is built, and the end of the function, where the
  opening balance is back-filled. \<open>txn_value_fields\<close> holds the local variables that
  this part of the loop body reads; the segmentation and tokenisation that compute them
  from the lines are a parameter \<open>front\<close> of the parser, so that every statement about
  the parser holds whatever they compute.
\<close>

record txn_value_fields =
  f_date :: string
  f_value_date :: string
  f_desc_line1 :: string
  f_desc_line2 :: string
  f_desc_main :: string
  f_cheque_ref :: string
  f_txn_tok :: string
  f_balance_tok :: string
  f_balance :: real

definition txn_value_credit_keys :: "string list" where
  "txn_value_credit_keys = [''BY TRANSFER'', ''/CR/'', ''CR/'', ''CREDIT'', ''TRANSFER FROM'']"

definition txn_value_debit_keys :: "string list" where
  "txn_value_debit_keys =
     [''TO TRANSFER'', ''TRANSFER TO'', ''/DR/'', ''DR'', ''UPI/DR'', ''DEBIT'', ''WDL'', ''ATM WDL'']"

datatype movement = Debit | Credit

text \<open>The \<open>if\<close> chain that decides between \<open>debit = amt_val\<close> and \<open>credit = amt_val\<close>.\<close>

definition txn_value_movement :: "string \<Rightarrow> string \<Rightarrow> movement" where
  "txn_value_movement desc_main ref =
     (let desc_up = py_upper desc_main;
          is_credit = list_ex (\<lambda>k. py_in k desc_up) txn_value_credit_keys;
          is_debit = list_ex (\<lambda>k. py_in k desc_up) txn_value_debit_keys
      in if is_credit \<and> \<not> is_debit then Credit
         else if is_debit \<and> \<not> is_credit then Debit
         else if ref \<noteq> [] \<and> py_in ''TRANSFER TO'' ref then Debit
         else if ref \<noteq> [] \<and> py_in ''TRANSFER FROM'' ref then Credit
         else if py_in ''/CR'' desc_up \<or> py_in ''BY TRANSFER'' desc_up then Credit
         else Debit)"

definition txn_value_record :: "txn_value_fields \<Rightarrow> txn" where
  "txn_value_record f =
     (let desc_line1 = f_desc_line1 f; desc_line2 = f_desc_line2 f; txn_tok = f_txn_tok f;
          amt_val = amount_of txn_tok;
          mv = txn_value_movement (f_desc_main f) (f_cheque_ref f)
      in \<lparr>date = f_date f, value_date = f_value_date f,
          description =
            py_strip (desc_line1 @ (if desc_line2 \<noteq> [] then [CHR 0x0A] @ desc_line2 else [])),
          description_line1 = desc_line1, description_line2 = desc_line2,
          cheque_ref = f_cheque_ref f,
          debit = (if txn_tok \<noteq> [] \<and> mv = Debit then amt_val else 0),
          credit = (if txn_tok \<noteq> [] \<and> mv = Credit then amt_val else 0),
          balance = f_balance f,
          orig_debit_text = (if txn_tok \<noteq> [] \<and> mv = Debit then txn_tok else []),
          orig_credit_text = (if txn_tok \<noteq> [] \<and> mv = Credit then txn_tok else []),
          orig_balance_text = f_balance_tok f\<rparr>)"

section \<open>BalanceReconciler: the back-fill of the opening balance\<close>

text \<open>
  \<open>x or 0.0\<close> on a number. The test \<open>meta.get("opening_balance") in (0, 0.0, None)\<close> is
  \<open>opening_balance m = 0\<close>, the entry being a number.
\<close>

definition or_zero :: "real \<Rightarrow> real" where
  "or_zero x = (if x \<noteq> 0 then x else 0)"

definition backfill_opening_balance :: "statement_meta \<Rightarrow> txn list \<Rightarrow> statement_meta" where
  "backfill_opening_balance m txns =
     (if opening_balance m = 0 \<and> txns \<noteq> []
      then (let first = txns ! 0
            in m\<lparr>opening_balance :=
                   or_zero (balance first) + or_zero (debit first) - or_zero (credit first)\<rparr>)
      else m)"

definition parse_sbi_txn_value ::
  "(string list \<Rightarrow> txn_value_fields list) \<Rightarrow> string list \<Rightarrow> parsed_statement" where
  "parse_sbi_txn_value front raw_lines =
     (let lines = normalize_multiline_dates raw_lines;
          m = extract_meta lines;
          txns = map txn_value_record (front lines);
          m = backfill_opening_balance m txns
      in \<lparr>meta = m\<lparr>bank := ''SBI'', layout := SBI_TXN_VALUE\<rparr>, transactions = txns\<rparr>)"

section \<open>LayoutClassifier and dispatcher: \<open>parse_pdf_to_data\<close>\<close>

definition layout_sample :: "string list \<Rightarrow> string" where
  "layout_sample lines = py_upper (py_join '' '' (take 120 lines))"

definition auto_layout :: "string list \<Rightarrow> string option" where
  "auto_layout lines =
     (let sample = layout_sample lines
      in if py_in ''POST DATE'' sample \<and> py_in ''VALUE DATE'' sample \<and> py_in ''DESCRIPTION'' sample
         then Some SBI_POST_VALUE
         else if py_in ''TXN DATE'' sample \<and> py_in ''VALUE DATE'' sample
         then Some SBI_TXN_VALUE
         else if py_in ''TXN DATE'' sample \<and> py_in ''DETAILS'' sample
         then Some SBI_DATE_DETAILS
         else None)"

text \<open>
  \<open>(layout.strip().upper() if layout else None) or auto or SBI_POST_VALUE\<close>: the hint
  counts when it is given, not empty, and not empty after \<open>strip\<close> either.
\<close>

definition explicit_layout :: "string option \<Rightarrow> string option" where
  "explicit_layout layout_arg =
     (case layout_arg of
        None \<Rightarrow> None
      | Some l \<Rightarrow> if l \<noteq> [] \<and> py_upper (py_strip l) \<noteq> [] then Some (py_upper (py_strip l))
                  else None)"

definition use_layout :: "string option \<Rightarrow> string list \<Rightarrow> string" where
  "use_layout layout_arg lines =
     (case explicit_layout layout_arg of
        Some l \<Rightarrow> l
      | None \<Rightarrow> (case auto_layout lines of Some a \<Rightarrow> a | None \<Rightarrow> SBI_POST_VALUE))"

text \<open>
  The dispatch at the end of \<open>parse_pdf_to_data\<close>. No function
  \<open>_parse_sbi_date_details\<close> is defined in the module, so evaluating its name in the
  third branch raises \<open>NameError\<close>; the last line raises
  \<open>ValueError("Unsupported layout")\<close>.
\<close>

definition parse_pdf_to_data ::
  "(string list \<Rightarrow> txn_value_fields list) \<Rightarrow> string list \<Rightarrow> string option
     \<Rightarrow> py_error + parsed_statement" where
  "parse_pdf_to_data front raw_lines layout_arg =
     (let lines = normalize_multiline_dates raw_lines;
          l = use_layout layout_arg lines
      in if l = SBI_POST_VALUE then Inr (parse_sbi_post_value raw_lines)
         else if l = SBI_TXN_VALUE then Inr (parse_sbi_txn_value front raw_lines)
         else if l = SBI_DATE_DETAILS then Inl NameError
         else Inl ValueError)"

section \<open>TableRenderer: \<open>generate_pdf_from_data\<close>\<close>

text \<open>
  The renderer's result is the list \<open>story\<close> that it hands to the document builder. A
  paragraph is its text. The description cell of a row, a nested table that
  \<open>_make_three_line_cells\<close> lays out, is given by the text \<open>desc_full\<close> it is built
  from. Paragraph styles, column widths and table styles are left out. A table carries
  its \<open>repeatRows\<close>: 1 for the transaction tables, 0 for the metadata block.

  The amounts of a record are the values of the floats it holds, so they are finite; the
  running total is a float, computed with the rounded operations, and may become an
  infinity or a NaN. A zero is never negative here: \<open>x or 0\<close> replaces a zero of either
  sign by \<open>0\<close>, and a sum or difference of floats is a negative zero only if an operand is
  one.
\<close>

datatype cell = Para string | DescTable string

datatype flowable = Table "cell list list" nat | PageBreak

record statement_obj =
  data :: parsed_statement
  obj_layout :: "string option"

text \<open>\<open>getattr(statement_obj, "layout", None) or meta.get("layout") or SBI_POST_VALUE\<close>\<close>

definition render_layout :: "statement_obj \<Rightarrow> string" where
  "render_layout obj =
     (let m = layout (meta (data obj));
          from_meta = (if m \<noteq> [] then m else SBI_POST_VALUE)
      in case obj_layout obj of
           None \<Rightarrow> from_meta
         | Some l \<Rightarrow> if l \<noteq> [] then l else from_meta)"

text \<open>
  \<open>ROWS_PER_PAGE\<close>, with the lengths in points as the source has them: the page is A4,
  \<open>297 * mm\<close> high. \<open>int\<close> of a positive number is its floor.
\<close>

definition mm :: real where
  "mm = 72 / 2.54 * 0.1"

definition rows_per_page :: "string \<Rightarrow> nat" where
  "rows_per_page l =
     (let height = 297 * mm;
          top_margin = (if l = SBI_TXN_VALUE then 10 * mm else 5 * mm);
          bottom_margin = (if l = SBI_TXN_VALUE then 12 * mm else 8 * mm);
          ROW_HEIGHT = (if l = SBI_TXN_VALUE then 14.5 * mm else 10.7 * mm);
          usable_height = height - top_margin - bottom_margin
      in if l = SBI_TXN_VALUE
         then max 6 (nat \<lfloor>(usable_height - ROW_HEIGHT * 2) / ROW_HEIGHT\<rfloor>)
         else max 8 (nat \<lfloor>(usable_height - ROW_HEIGHT - ROW_HEIGHT) / ROW_HEIGHT\<rfloor>))"

definition header_row :: "string \<Rightarrow> cell list" where
  "header_row l =
     [Para (if l = SBI_TXN_VALUE then ''Txn Date'' else ''Post Date''),
      Para ''Value Date'',
      Para ''Description'',
      Para (if l = SBI_TXN_VALUE then ''Ref No./Cheque No.'' else ''Cheque<br/>No/Reference''),
      Para ''Debit'',
      Para ''Credit'',
      Para ''Balance'']"

definition footer_row :: "cell list" where
  "footer_row = replicate 7 (Para [])"

definition desc_full_of :: "txn \<Rightarrow> string" where
  "desc_full_of t =
     (let d1 = py_strip (description_line1 t)
      in if description_line2 t \<noteq> []
         then (if d1 \<noteq> [] then d1 @ '' / '' @ py_strip (description_line2 t)
               else py_strip (description_line2 t))
         else d1)"

text \<open>
  One turn of the loop over a chunk: \<open>running\<close> is \<open>running_balance_global\<close> before
  the row; the result is the row and the new running total.
  \<open>running - debit + credit\<close> is a subtraction, then an addition, each of them rounded.
\<close>

definition render_row :: "string \<Rightarrow> pyfloat \<Rightarrow> txn \<Rightarrow> cell list \<times> pyfloat" where
  "render_row l running t =
     (let d = or_zero (debit t);
          c = or_zero (credit t);
          running = fadd (fsub running (Fin d)) (Fin c)
      in ([Para (date t),
           Para (value_date t),
           DescTable (desc_full_of t),
           Para (cheque_ref t),
           Para (if d \<noteq> 0 then py_format_2f (Fin d) else []),
           Para (if c \<noteq> 0 then py_format_2f (Fin c) else []),
           Para (py_format_2f running @ (if l = SBI_POST_VALUE then ''CR'' else []))],
          running))"

fun render_rows :: "string \<Rightarrow> pyfloat \<Rightarrow> txn list \<Rightarrow> cell list list \<times> pyfloat" where
  "render_rows l running [] = ([], running)"
| "render_rows l running (t # ts) =
     (let (row, running1) = render_row l running t;
          (rows, running2) = render_rows l running1 ts
      in (row # rows, running2))"

text \<open>
  The loop \<open>for start in range(0, len(txns), ROWS_PER_PAGE)\<close>; the last argument is
  \<open>txns[start:]\<close>. \<open>ROWS_PER_PAGE\<close> is at least 6, so the case \<open>n = 0\<close> does not arise.
\<close>

function render_pages :: "string \<Rightarrow> nat \<Rightarrow> pyfloat \<Rightarrow> txn list \<Rightarrow> flowable list" where
  "render_pages l n running txns =
     (if txns = [] \<or> n = 0 then []
      else (let (rows, running1) = render_rows l running (take n txns);
                table_data = [header_row l] @ rows
                             @ (if l = SBI_POST_VALUE then [footer_row] else [])
            in [Table table_data 1] @ (if n < length txns then [PageBreak] else [])
               @ render_pages l n running1 (drop n txns)))"
  by pat_completeness auto
termination
  by (relation "measure (\<lambda>(l, n, running, txns). length txns)") auto

declare render_pages.simps [simp del]

definition meta_block :: "string \<Rightarrow> statement_meta \<Rightarrow> flowable list" where
  "meta_block l m =
     (if account_name m \<noteq> [] \<or> account_number m \<noteq> [] \<or> period m \<noteq> []
      then [Table [[Para (''<b>'' @ account_name m @ ''</b>''),
                    Para (''Opening Balance: '' @ py_format_2f (Fin (or_zero (opening_balance m)))
                          @ (if l = SBI_POST_VALUE then ''CR'' else []))],
                   [Para (''Account No: '' @ account_number m),
                    Para (''Period: '' @ period m)]] 0]
      else [])"

definition generate_pdf_from_data :: "statement_obj \<Rightarrow> flowable list" where
  "generate_pdf_from_data obj =
     (let m = meta (data obj);
          txns = transactions (data obj);
          l = render_layout obj
      in meta_block l m
         @ render_pages l (rows_per_page l) (Fin (or_zero (opening_balance m))) txns)"

text \<open>
  Reading the story: the body rows of a transaction table are its rows without the header
  row and, in the PostValue layout, without the footer row.
\<close>

definition body_rows_of :: "string \<Rightarrow> flowable \<Rightarrow> cell list list" where
  "body_rows_of l f =
     (case f of
        PageBreak \<Rightarrow> []
      | Table rows r \<Rightarrow>
          if r = 1 then (if l = SBI_POST_VALUE then butlast (tl rows) else tl rows) else [])"

definition story_body_rows :: "string \<Rightarrow> flowable list \<Rightarrow> cell list list" where
  "story_body_rows l story = concat (map (body_rows_of l) story)"

text \<open>
  The running total in words: it starts from the opening balance, and each row takes the
  debit off and then puts the credit on, each time rounding to a float. \<open>running_total\<close>
  is its value after the row of index \<open>i\<close>.
\<close>

definition running_step :: "pyfloat \<Rightarrow> txn \<Rightarrow> pyfloat" where
  "running_step r t = fadd (fsub r (Fin (debit t))) (Fin (credit t))"

definition running_total :: "statement_obj \<Rightarrow> nat \<Rightarrow> pyfloat" where
  "running_total obj i =
     foldl running_step (Fin (opening_balance (meta (data obj))))
       (take (Suc i) (transactions (data obj)))"


text \<open>A statement of two rows, for the examples below.\<close>

definition example_statement :: statement_obj where
  "example_statement =
     \<lparr>data = \<lparr>meta = \<lparr>account_name = ''Mr. A'', account_number = ''1234'', period = [],
                       opening_balance = 0, bank = ''SBI'', layout = ''SBI_POST_VALUE''\<rparr>,
              transactions =
                [\<lparr>date = ''01-04-2024'', value_date = ''02-04-2024'', description = ''ATM WDL'',
                  description_line1 = ''ATM WDL'', description_line2 = [], cheque_ref = [],
                  debit = 500, credit = 0, balance = 4500,
                  orig_debit_text = [], orig_credit_text = [], orig_balance_text = ''4,500.00''\<rparr>,
                 \<lparr>date = ''03-04-2024'', value_date = ''03-04-2024'', description = ''BY TRANSFER'',
                  description_line1 = ''BY TRANSFER'', description_line2 = [], cheque_ref = [],
                  debit = 0, credit = 120, balance = 4620,
                  orig_debit_text = [], orig_credit_text = [], orig_balance_text = ''4,620.00''\<rparr>]\<rparr>,
      obj_layout = None\<rparr>"


section \<open>Rounding to a float\<close>

lemma floor_log2_eqI:
  assumes "2 powi e \<le> x" "x < 2 powi (e + 1)"
  shows "\<lfloor>log 2 x\<rfloor> = e"
proof -
  have x: "0 < x"
    using assms(1) zero_less_power_int [of "2::real" e] by linarith
  have a: "of_int e \<le> log 2 x"
    using assms(1) x by (simp add: le_log_iff powr_real_of_int')
  have "(2::real) powi (e + 1) = 2 powr (of_int (e + 1))"
    using powr_real_of_int' [of 2 "e + 1"] by simp
  then have b: "log 2 x < of_int (e + 1)"
    using assms(2) x by (simp only: log_less_iff [of 2 x "of_int (e + 1)"])
  show ?thesis
    using a b by (simp add: floor_eq_iff)
qed

lemma rne_of_int: "rne (of_int n) = n"
  by (simp add: rne_def)


lemma ulp_exp_eqI:
  assumes "2 powi e \<le> \<bar>x\<bar>" "\<bar>x\<bar> < 2 powi (e + 1)"
  shows "ulp_exp x = max (e - 52) (- 1074)"
  unfolding ulp_exp_def floor_log2_eqI [OF assms] ..

lemma round_double_eqI:
  assumes "2 powi e \<le> \<bar>x\<bar>" "\<bar>x\<bar> < 2 powi (e + 1)" "k = max (e - 52) (- 1074)"
  shows "round_double x = of_int (rne (x / 2 powi k)) * 2 powi k"
proof -
  have "x \<noteq> 0"
    using assms(1) zero_less_power_int [of "2::real" e] by linarith
  then show ?thesis
    unfolding round_double_def ulp_exp_eqI [OF assms(1,2)] assms(3) by simp
qed

lemma floor_log2_less:
  assumes "0 < x" "x < 2 powi n"
  shows "\<lfloor>log 2 x\<rfloor> < n"
proof -
  have "(2::real) powi n = 2 powr (of_int n)"
    using powr_real_of_int' [of 2 n] by simp
  then have "log 2 x < of_int n"
    using assms by (simp only: log_less_iff [of 2 x "of_int n"])
  then show ?thesis
    by (simp add: floor_less_iff)
qed

lemma round_double_scaled:
  assumes "\<bar>m\<bar> < 2 ^ 53" "- 1074 \<le> j"
  shows "round_double (of_int m * 2 powi j) = of_int m * 2 powi j"
proof (cases "m = 0")
  case True
  then show ?thesis by (simp add: round_double_def)
next
  case False
  define x :: real where "x = of_int m * 2 powi j"
  define k where "k = ulp_exp x"
  have x0: "x \<noteq> 0" using False by (simp add: x_def)
  have "\<bar>x\<bar> = of_int \<bar>m\<bar> * 2 powi j"
    by (simp add: x_def abs_mult)
  also have "\<dots> < 2 ^ 53 * 2 powi j"
  proof -
    have "(of_int \<bar>m\<bar> :: real) < of_int (2 ^ 53)"
      using assms(1) by (simp only: of_int_less_iff)
    then show ?thesis by simp
  qed
  also have "\<dots> = 2 powi (53 + j)"
    by (simp add: power_int_add)
  finally have "\<bar>x\<bar> < 2 powi (53 + j)" .
  then have "\<lfloor>log 2 \<bar>x\<bar>\<rfloor> < 53 + j"
    using x0 by (intro floor_log2_less) simp_all
  then have kj: "k \<le> j"
    using assms(2) by (simp add: k_def ulp_exp_def)
  have "x / 2 powi k = of_int m * 2 powi (j - k)"
    by (simp add: x_def power_int_diff)
  also have "\<dots> = of_int (m * 2 ^ nat (j - k))"
    using kj by (simp add: power_int_def)
  finally have "rne (x / 2 powi k) = m * 2 ^ nat (j - k)"
    by (simp only: rne_of_int)
  then have "round_double x = of_int (m * 2 ^ nat (j - k)) * 2 powi k"
    using x0 by (simp add: round_double_def k_def)
  also have "\<dots> = of_int m * 2 powi (j - k) * 2 powi k"
    using kj by (simp add: power_int_def)
  also have "\<dots> = x"
    by (simp add: x_def power_int_diff)
  finally show ?thesis by (simp add: x_def)
qed

lemma to_float_scaled:
  assumes "\<bar>m\<bar> < 2 ^ 53" "- 1074 \<le> j" "j \<le> 971"
  shows "to_float (of_int m * 2 powi j) = Fin (of_int m * 2 powi j)"
proof -
  have a: "\<bar>of_int m * 2 powi j :: real\<bar> \<le> DBL_MAX"
  proof -
    have "\<bar>m\<bar> \<le> 2 ^ 53 - 1" using assms(1) by simp
    then have "(of_int \<bar>m\<bar> :: real) \<le> of_int (2 ^ 53 - 1)"
      by (simp only: of_int_le_iff)
    then have m: "(of_int \<bar>m\<bar> :: real) \<le> 2 ^ 53 - 1" by simp
    have "(2::real) powi j \<le> 2 powi 971"
      using assms(3) by (intro power_int_increasing) simp_all
    then have j: "(2::real) powi j \<le> 2 ^ 971" by simp
    have "\<bar>of_int m * 2 powi j :: real\<bar> = of_int \<bar>m\<bar> * 2 powi j"
      by (simp add: abs_mult)
    also have "\<dots> \<le> (2 ^ 53 - 1) * 2 ^ 971"
      using m j by (intro mult_mono) simp_all
    finally show ?thesis by (simp add: DBL_MAX_def)
  qed
  show ?thesis
    unfolding to_float_def round_double_scaled [OF assms(1,2)] Let_def
    using a by (auto simp: abs_le_iff)
qed

lemma to_float_of_int:
  assumes "\<bar>m\<bar> < 2 ^ 53"
  shows "to_float (of_int m) = Fin (of_int m)"
  using to_float_scaled [OF assms, of 0] by simp

text \<open>
  The rounding is to a nearest number of the format: the result has at most 53
  significant bits at the exponent of the last place, and it is within half a unit of
  the last place of the exact value. By \<open>to_float_scaled\<close> every number of the format
  rounds to itself.
\<close>

lemma rne_close: "\<bar>of_int (rne y) - y\<bar> \<le> 1 / 2"
proof -
  have "of_int \<lfloor>y\<rfloor> \<le> y" "y < of_int \<lfloor>y\<rfloor> + 1"
    by linarith+
  then show ?thesis
    unfolding rne_def Let_def by (auto simp: abs_le_iff)
qed

lemma rne_mono_bound:
  assumes "\<bar>y\<bar> \<le> of_int n"
  shows "\<bar>rne y\<bar> \<le> n"
proof -
  have a: "of_int \<lfloor>y\<rfloor> \<le> y" "y < of_int \<lfloor>y\<rfloor> + 1"
    by linarith+
  have u: "y \<le> of_int n" and l: "of_int (- n) \<le> y"
    using assms by (simp_all add: abs_le_iff)
  have f1: "\<lfloor>y\<rfloor> \<le> n"
    using u by (simp add: floor_le_iff)
  have f2: "- n \<le> \<lfloor>y\<rfloor>"
    using l by (simp only: le_floor_iff)
  have up: "y \<noteq> of_int \<lfloor>y\<rfloor> \<Longrightarrow> \<lfloor>y\<rfloor> + 1 \<le> n"
  proof -
    assume "y \<noteq> of_int \<lfloor>y\<rfloor>"
    then have "of_int \<lfloor>y\<rfloor> < y" using a(1) by linarith
    then have "of_int \<lfloor>y\<rfloor> < (of_int n :: real)" using u by linarith
    then have "\<lfloor>y\<rfloor> < n" by (simp only: of_int_less_iff)
    then show ?thesis by simp
  qed
  show ?thesis
    unfolding rne_def Let_def using f1 f2 up by (auto simp: abs_le_iff)
qed

lemma round_double_close:
  "\<bar>round_double x - x\<bar> \<le> 2 powi ulp_exp x / 2"
proof (cases "x = 0")
  case True
  then show ?thesis by (simp add: round_double_def)
next
  case False
  let ?q = "(2::real) powi ulp_exp x"
  have q: "0 < ?q" by simp
  have "round_double x - x = (of_int (rne (x / ?q)) - x / ?q) * ?q"
    using False by (simp add: round_double_def algebra_simps)
  then have "\<bar>round_double x - x\<bar> = \<bar>of_int (rne (x / ?q)) - x / ?q\<bar> * ?q"
    by (simp add: abs_mult)
  also have "\<dots> \<le> 1 / 2 * ?q"
    using rne_close [of "x / ?q"] q by (intro mult_right_mono) simp_all
  finally show ?thesis by simp
qed

lemma floor_log2_bounds:
  assumes "0 < x"
  shows "2 powi \<lfloor>log 2 x\<rfloor> \<le> x" "x < 2 powi (\<lfloor>log 2 x\<rfloor> + 1)"
proof -
  have a: "of_int \<lfloor>log 2 x\<rfloor> \<le> log 2 x" "log 2 x < of_int (\<lfloor>log 2 x\<rfloor> + 1)"
    by linarith+
  have p: "\<And>n. (2::real) powi n = 2 powr (of_int n)"
    using powr_real_of_int' [of 2] by simp
  show "2 powi \<lfloor>log 2 x\<rfloor> \<le> x"
    unfolding p using a(1) assms by (simp only: le_log_iff [of 2 x, symmetric])
  show "x < 2 powi (\<lfloor>log 2 x\<rfloor> + 1)"
    unfolding p using a(2) assms by (simp only: log_less_iff [of 2 x, symmetric])
qed

lemma round_double_representable:
  "\<exists>m. round_double x = of_int m * 2 powi ulp_exp x \<and> \<bar>m\<bar> \<le> 2 ^ 53"
proof (cases "x = 0")
  case True
  then show ?thesis by (intro exI [of _ 0]) (simp add: round_double_def)
next
  case False
  let ?k = "ulp_exp x"
  have k: "\<lfloor>log 2 \<bar>x\<bar>\<rfloor> - 52 \<le> ?k" by (simp add: ulp_exp_def)
  have "\<bar>x\<bar> < 2 powi (\<lfloor>log 2 \<bar>x\<bar>\<rfloor> + 1)"
    using floor_log2_bounds(2) [of "\<bar>x\<bar>"] False by simp
  also have "\<dots> \<le> 2 powi (?k + 53)"
    using k by (intro power_int_increasing) simp_all
  also have "\<dots> = 2 powi ?k * 2 ^ 53"
    by (simp add: power_int_add)
  finally have "\<bar>x\<bar> / 2 powi ?k < 2 ^ 53"
    by (simp add: divide_less_eq mult.commute)
  then have "\<bar>x / 2 powi ?k\<bar> \<le> of_int (2 ^ 53)"
    by (simp add: abs_divide)
  then have "\<bar>rne (x / 2 powi ?k)\<bar> \<le> 2 ^ 53"
    by (rule rne_mono_bound)
  then show ?thesis
    using False by (intro exI [of _ "rne (x / 2 powi ?k)"]) (simp add: round_double_def)
qed

lemma to_float_eqI:
  assumes "2 powi e \<le> \<bar>x\<bar>" "\<bar>x\<bar> < 2 powi (e + 1)" "k = max (e - 52) (- 1074)"
    and "of_int (rne (x / 2 powi k)) * 2 powi k = r" "\<bar>r\<bar> \<le> DBL_MAX"
  shows "to_float x = Fin r"
  unfolding to_float_def round_double_eqI [OF assms(1,2,3)] assms(4) Let_def
  using assms(5) by (auto simp: abs_le_iff)


lemma fadd_zero_right: "is_double x \<Longrightarrow> fadd (Fin x) (Fin 0) = Fin x"
  by (simp add: is_double_def)

lemmas format_eval =
  format_2f_def rne_def nat_digits.simps group_thousands.simps digit_char_def Let_def

section \<open>Properties of the text primitives\<close>

lemma py_replace_filter:
  "\<forall>c \<in> set old \<union> set new. \<not> P c \<Longrightarrow> filter P (py_replace old new s) = filter P s"
proof (induction old new s rule: py_replace.induct)
  case (1 old new)
  then show ?case by simp
next
  case (2 old new c cs)
  show ?case
  proof (cases "old \<noteq> [] \<and> prefix old (c # cs)")
    case True
    then obtain r where r: "c # cs = old @ r"
      by (auto simp: prefix_def)
    have d: "drop (length old) (c # cs) = r"
      by (simp add: r)
    have f: "filter P (c # cs) = filter P r"
      unfolding r using "2.prems" by (simp add: filter_empty_conv)
    have n: "filter P new = []"
      using "2.prems" by (simp add: filter_empty_conv)
    have "py_replace old new (c # cs) = new @ py_replace old new r"
      using True d by simp
    moreover have "filter P (py_replace old new r) = filter P r"
      using "2.IH"(1) [OF True] "2.prems" d by simp
    ultimately show ?thesis using f n by simp
  next
    case False
    with 2 show ?thesis by auto
  qed
qed

lemma py_replace_single_map:
  "py_replace [a] [b] s = map (\<lambda>c. if c = a then b else c) s"
  by (induction s) auto

lemma py_replace_single_filter:
  "py_replace [a] [] s = filter (\<lambda>c. c \<noteq> a) s"
  by (induction s) auto

section \<open>AmountToken on Latin-1 text\<close>

lemma py_strip_id: "\<forall>c \<in> set s. \<not> is_space c \<Longrightarrow> py_strip s = s"
proof -
  assume a: "\<forall>c \<in> set s. \<not> is_space c"
  have d: "\<And>t. \<forall>c \<in> set t. \<not> is_space c \<Longrightarrow> dropWhile is_space t = t"
    by (case_tac t) auto
  show ?thesis
    unfolding py_strip_def using a by (simp add: d)
qed

lemma paren_steps:
  "filter amount_char (py_replace '')'' [] (py_replace ''('' ''-'' t))
     = map (\<lambda>c. if c = CHR ''('' then CHR ''-'' else c) (filter amount_or_open t)"
  by (induction t) (auto simp: amount_or_open_def amount_char_def is_digit_def)

lemma negate_parenthesised_filter:
  "filter amount_char (negate_parenthesised t)
     = map (\<lambda>c. if c = CHR ''('' then CHR ''-'' else c) (filter amount_or_open t)"
  unfolding negate_parenthesised_def
  by (induction t) (auto simp: amount_or_open_def amount_char_def is_digit_def)

lemma strip_crdr_suffix_filter:
  "filter amount_or_open (strip_crdr_suffix s) = filter amount_or_open s"
proof -
  have "\<And>y. filter amount_or_open (y @ ''CR'') = filter amount_or_open y"
       "\<And>y. filter amount_or_open (y @ ''DR'') = filter amount_or_open y"
    by (simp_all add: amount_or_open_def amount_char_def is_digit_def)
  then show ?thesis
    unfolding strip_crdr_suffix_def by (auto simp: suffix_def)
qed

lemma code_cleaned:
  "filter amount_char (py_replace '')'' [] (py_replace ''('' ''-''
      (py_replace [CHR 0xA0] '' '' (py_replace '','' []
        (py_replace ''DR'' [] (py_replace ''CR'' [] u))))))
   = map (\<lambda>c. if c = CHR ''('' then CHR ''-'' else c) (filter amount_or_open u)"
  by (simp add: paren_steps py_replace_filter amount_or_open_def amount_char_def is_digit_def)

lemma rules_cleaned:
  "filter amount_char (negate_parenthesised
      (map (\<lambda>c. if c = CHR 0xA0 then CHR '' '' else c)
        (filter (\<lambda>c. c \<noteq> CHR '','') (strip_crdr_suffix u))))
   = map (\<lambda>c. if c = CHR ''('' then CHR ''-'' else c) (filter amount_or_open u)"
proof -
  have a: "\<And>t. filter amount_or_open (map (\<lambda>c. if c = CHR 0xA0 then CHR '' '' else c) t)
             = filter amount_or_open t"
    by (induct_tac t) (auto simp: amount_or_open_def amount_char_def is_digit_def)
  have b: "\<And>t. filter amount_or_open (filter (\<lambda>c. c \<noteq> CHR '','') t) = filter amount_or_open t"
    by (induct_tac t) (auto simp: amount_or_open_def amount_char_def is_digit_def)
  show ?thesis
    by (simp only: negate_parenthesised_filter a b strip_crdr_suffix_filter)
qed

lemma cleaned_no_space:
  "\<forall>c \<in> set (map (\<lambda>c. if c = CHR ''('' then CHR ''-'' else c) (filter amount_or_open u)).
     \<not> is_space c"
  by (auto simp: amount_or_open_def amount_char_def is_digit_def is_space_def)

lemma parse_amount_cleaned:
  assumes "s \<noteq> []"
  defines "c \<equiv> map (\<lambda>c. if c = CHR ''('' then CHR ''-'' else c) (filter amount_or_open (py_upper s))"
  shows "parse_amount s =
    (case (if c \<notin> set ['''', ''-'', ''.''] then py_float c else Inr 0) of
       Inl e \<Rightarrow> Inr 0 | Inr v \<Rightarrow> Inr v)"
  unfolding parse_amount_def Let_def code_cleaned py_strip_id [OF cleaned_no_space] c_def
  using assms(1) by (simp only: if_False)

lemma amount_token_rules_cleaned:
  defines "c \<equiv> \<lambda>s. map (\<lambda>c. if c = CHR ''('' then CHR ''-'' else c) (filter amount_or_open (py_upper s))"
  shows "amount_token_rules s =
    (if c s = '''' \<or> c s = ''-'' \<or> c s = ''.'' then 0 else decimal_or_zero (c s))"
  unfolding amount_token_rules_def Let_def rules_cleaned c_def ..

lemma parse_amount_eq_rules: "parse_amount s = Inr (amount_token_rules s)"
proof (cases "s = []")
  case True
  have "amount_token_rules [] = 0"
    unfolding amount_token_rules_cleaned by (simp add: py_upper_def)
  with True show ?thesis
    by (simp add: parse_amount_def)
next
  case False
  define c where
    "c = map (\<lambda>c. if c = CHR ''('' then CHR ''-'' else c) (filter amount_or_open (py_upper s))"
  have p: "parse_amount s =
    (case (if c \<notin> set ['''', ''-'', ''.''] then py_float c else Inr 0) of
       Inl e \<Rightarrow> Inr 0 | Inr v \<Rightarrow> Inr v)"
    unfolding c_def by (rule parse_amount_cleaned [OF False])
  have r: "amount_token_rules s =
    (if c = '''' \<or> c = ''-'' \<or> c = ''.'' then 0 else decimal_or_zero c)"
    unfolding c_def by (rule amount_token_rules_cleaned)
  show ?thesis
  proof (cases "c = '''' \<or> c = ''-'' \<or> c = ''.''")
    case True
    then have "c \<in> set ['''', ''-'', ''.'']" by auto
    with True p r show ?thesis by (simp del: set_simps)
  next
    case False
    then have n: "c \<notin> set ['''', ''-'', ''.'']" by auto
    show ?thesis
      unfolding p r decimal_or_zero_def using False n
      by (cases "py_float c") (simp_all del: set_simps)
  qed
qed

lemma amount_of_eq_rules: "amount_of s = amount_token_rules s"
  by (simp add: amount_of_def parse_amount_eq_rules)

lemmas amount_eval =
  parse_amount_def py_upper_def upper_char_def py_strip_def is_space_def
  amount_char_def is_digit_def py_float_def py_float_unsigned_def digits_value_def digit_val_def

lemma parse_amount_1234_50CR: "parse_amount ''1,234.50CR'' = Inr 1234.5"
  by (simp add: amount_eval)

lemma parse_amount_paren_500: "parse_amount ''(500.00)'' = Inr (- 500)"
  by (simp add: amount_eval)

text \<open>
  The parenthesis rule read on a value: a text without parentheses and minus signs, put in
  parentheses, has the negated amount.
\<close>

lemma py_float_minus:
  assumes "CHR ''-'' \<notin> set c"
  shows "py_float (CHR ''-'' # c) = (case py_float c of Inl e \<Rightarrow> Inl e | Inr v \<Rightarrow> Inr (- v))"
proof -
  have "py_float c = py_float_unsigned c"
    using assms by (cases c) (auto simp: py_float_def)
  then show ?thesis by (simp add: py_float_def)
qed

lemma amount_of_cleaned:
  "amount_of s =
    (let c = map (\<lambda>c. if c = CHR ''('' then CHR ''-'' else c) (filter amount_or_open (py_upper s))
     in if c = '''' \<or> c = ''-'' \<or> c = ''.'' then 0 else decimal_or_zero c)"
  unfolding amount_of_eq_rules amount_token_rules_cleaned Let_def ..

lemma upper_char_paren:
  "upper_char (CHR ''('') = CHR ''(''" "upper_char (CHR '')'') = CHR '')''"
  by (simp_all add: upper_char_def)

lemma upper_char_paren_iff:
  "upper_char x = CHR ''('' \<longleftrightarrow> x = CHR ''(''"
  "upper_char x = CHR ''-'' \<longleftrightarrow> x = CHR ''-''"
  by (simp_all add: upper_char_def split: if_splits)

lemma amount_of_parenthesised:
  assumes "CHR ''('' \<notin> set s" "CHR ''-'' \<notin> set s"
  shows "amount_of (''('' @ s @ '')'') = - amount_of s"
proof -
  define c where
    "c = map (\<lambda>c. if c = CHR ''('' then CHR ''-'' else c) (filter amount_or_open (py_upper s))"
  have up: "\<And>x. x \<in> set s \<Longrightarrow> upper_char x \<noteq> CHR ''('' \<and> upper_char x \<noteq> CHR ''-''"
    using assms upper_char_paren_iff by metis
  have nm: "CHR ''-'' \<notin> set c"
  proof
    assume "CHR ''-'' \<in> set c"
    then obtain y where y: "y \<in> set (py_upper s)"
        "(if y = CHR ''('' then CHR ''-'' else y) = CHR ''-''"
      unfolding c_def by auto
    then obtain x where x: "x \<in> set s" "y = upper_char x"
      unfolding py_upper_def by auto
    from y(2) have "y = CHR ''('' \<or> y = CHR ''-''"
      by (simp split: if_splits)
    with up [OF x(1)] x(2) show False by blast
  qed
  have c': "map (\<lambda>c. if c = CHR ''('' then CHR ''-'' else c)
              (filter amount_or_open (py_upper (''('' @ s @ '')''))) = CHR ''-'' # c"
    unfolding c_def py_upper_def
    by (simp add: upper_char_paren amount_or_open_def amount_char_def is_digit_def)
  have a: "amount_of s = (if c = '''' \<or> c = ''-'' \<or> c = ''.'' then 0 else decimal_or_zero c)"
    unfolding amount_of_cleaned c_def Let_def ..
  have b: "amount_of (''('' @ s @ '')'')
           = (if CHR ''-'' # c = ''-'' then 0 else decimal_or_zero (CHR ''-'' # c))"
    unfolding amount_of_cleaned Let_def c' by simp
  have d: "decimal_or_zero (CHR ''-'' # c) = - decimal_or_zero c"
    unfolding decimal_or_zero_def py_float_minus [OF nm] by (simp split: sum.splits)
  have e: "decimal_or_zero [] = 0" "decimal_or_zero ''.'' = 0"
    by (simp_all add: decimal_or_zero_def py_float_def py_float_unsigned_def is_digit_def)
  show ?thesis
    using nm unfolding a b d by (auto simp: e)
qed

lemma parse_amount_empty: "parse_amount [] = Inr 0"
  by (simp add: parse_amount_def)

section \<open>Regular expressions and the line normaliser\<close>

lemmas rx_eval = re_match_def rx_seq_def rx_plus_def rx_opt_def rx_lit_def rx_rems.simps(5)
  is_digit_def is_alpha_def is_space_def

lemma rx_rems_suffix: "t \<in> set (rx_rems r s) \<Longrightarrow> suffix t s"
proof (induction r s arbitrary: t rule: rx_rems.induct)
  case (1 s)
  then show ?case by simp
next
  case (2 p s)
  then show ?case by (cases s) (auto split: if_splits simp: suffix_Cons)
next
  case (3 a b s)
  from "3.prems" obtain u where u: "u \<in> set (rx_rems a s)" "t \<in> set (rx_rems b u)"
    by auto
  from "3.IH"(1) [OF u(1)] "3.IH"(2) [OF u(1) u(2)] show ?case
    by (rule suffix_order.trans [rotated])
next
  case (4 a b s)
  then show ?case by auto
next
  case (5 a s)
  from "5.prems" have "t = s \<or> (\<exists>u \<in> set (rx_rems a s). length u < length s \<and> t \<in> set (rx_rems (Star a) u))"
    by (auto simp del: rx_rems.simps(5) simp add: rx_rems.simps(5) [of a s] split: if_splits)
  then show ?case
  proof
    assume "t = s" then show ?thesis by simp
  next
    assume "\<exists>u \<in> set (rx_rems a s). length u < length s \<and> t \<in> set (rx_rems (Star a) u)"
    then obtain u where u: "u \<in> set (rx_rems a s)" "length u < length s" "t \<in> set (rx_rems (Star a) u)"
      by blast
    from "5.IH"(2) [OF u(1) u(2) u(3)] "5.IH"(1) [OF u(1)] show ?thesis
      by (rule suffix_order.trans)
  qed
next
  case (6 s)
  then show ?case by (auto split: if_splits)
qed

lemma year_shape:
  "re_match year_re s \<Longrightarrow> \<exists>a b c d. is_digit a \<and> is_digit b \<and> is_digit c \<and> is_digit d
      \<and> (s = [a, b, c, d] \<or> s = [a, b, c, d, CHR 0x0A])"
  by (auto simp: re_match_def year_re_def rx_seq_def split: list.splits if_splits)

lemma short_day_chars: "re_match short_day_re s \<Longrightarrow> \<forall>c \<in> set s. is_digit c \<or> c = CHR 0x0A"
  by (auto simp: re_match_def short_day_re_def rx_seq_def rx_opt_def split: list.splits if_splits)

lemma short_mon_shape:
  "re_match short_mon_re s \<Longrightarrow> \<exists>a b c. is_alpha a \<and> is_alpha b \<and> is_alpha c
      \<and> (s = [a, b, c] \<or> s = [a, b, c, CHR 0x0A])"
  by (auto simp: re_match_def short_mon_re_def rx_seq_def split: list.splits if_splits)

lemma re_match_seq_Cons:
  "re_match (rx_seq (r # rs)) s \<Longrightarrow> \<exists>u. suffix u s \<and> re_match (rx_seq rs) u"
  by (auto simp: re_match_def rx_seq_def dest: rx_rems_suffix)

lemma day_mon_ends_alpha: "re_match day_mon_re s \<Longrightarrow> ends_alpha s"
proof -
  assume "re_match day_mon_re s"
  then obtain u1 where u1: "suffix u1 s"
      "re_match (rx_seq [rx_opt (Cls is_digit), rx_plus (Cls is_space),
                        Cls is_alpha, Cls is_alpha, Cls is_alpha, Eol]) u1"
    unfolding day_mon_re_def by (blast dest: re_match_seq_Cons)
  then obtain u2 where u2: "suffix u2 u1"
      "re_match (rx_seq [rx_plus (Cls is_space), Cls is_alpha, Cls is_alpha, Cls is_alpha, Eol]) u2"
    by (blast dest: re_match_seq_Cons)
  then obtain u3 where u3: "suffix u3 u2" "re_match short_mon_re u3"
    unfolding short_mon_re_def by (blast dest: re_match_seq_Cons)
  from u1(1) u2(1) u3(1) have "suffix u3 s"
    by (meson suffix_order.trans)
  then obtain w where w: "s = w @ u3" by (auto simp: suffix_def)
  from short_mon_shape [OF u3(2)] show "ends_alpha s"
    unfolding w ends_alpha_def by (auto simp: butlast_append)
qed

lemma not_alpha_digit: "is_digit c \<Longrightarrow> \<not> is_alpha c"
  by (auto simp: is_digit_def is_alpha_def)

lemma year_chars: "re_match year_re s \<Longrightarrow> \<forall>c \<in> set s. is_digit c \<or> c = CHR 0x0A"
  using year_shape [of s] by auto

lemma short_mon_chars: "re_match short_mon_re s \<Longrightarrow> \<forall>c \<in> set s. is_alpha c \<or> c = CHR 0x0A"
  using short_mon_shape [of s] by auto

lemma space_not_class:
  "\<not> is_digit (CHR '' '')" "\<not> is_alpha (CHR '' '')" "CHR '' '' \<noteq> CHR 0x0A"
  by (simp_all add: is_digit_def is_alpha_def)

lemma year_not_ends_alpha: "re_match year_re z \<Longrightarrow> \<not> ends_alpha (p @ '' '' @ z)"
proof -
  assume "re_match year_re z"
  then obtain a b c d where d: "is_digit d"
    and z: "z = [a, b, c, d] \<or> z = [a, b, c, d, CHR 0x0A]"
    using year_shape by blast
  have na: "\<not> is_alpha d" "\<not> is_alpha (CHR 0x0A)" "d \<noteq> CHR 0x0A"
    using d by (auto simp: is_digit_def is_alpha_def)
  from z show ?thesis
  proof
    assume "z = [a, b, c, d]"
    with na show ?thesis by (simp add: ends_alpha_def)
  next
    assume "z = [a, b, c, d, CHR 0x0A]"
    with na show ?thesis by (simp add: ends_alpha_def butlast_append)
  qed
qed

lemma year_merge_inert: "re_match year_re z \<Longrightarrow> inert (p @ '' '' @ z)"
proof -
  assume y: "re_match year_re z"
  have sp: "CHR '' '' \<in> set (p @ '' '' @ z)" by simp
  have "\<not> re_match year_re (p @ '' '' @ z)"
    using year_chars [of "p @ '' '' @ z"] sp space_not_class by blast
  moreover have "\<not> re_match short_day_re (p @ '' '' @ z)"
    using short_day_chars [of "p @ '' '' @ z"] sp space_not_class by blast
  moreover have "\<not> re_match short_mon_re (p @ '' '' @ z)"
    using short_mon_chars [of "p @ '' '' @ z"] sp space_not_class by blast
  moreover have "\<not> re_match day_mon_re (p @ '' '' @ z)"
    using day_mon_ends_alpha year_not_ends_alpha [OF y] by blast
  ultimately show ?thesis by (simp add: inert_def)
qed

lemma normalize_inert_head:
  "inert m \<Longrightarrow> normalize_multiline_dates (m # X) = m # normalize_multiline_dates X"
  by (simp add: inert_def)

lemma normalize_Nil_iff: "normalize_multiline_dates L = [] \<longleftrightarrow> L = []"
  by (cases L) auto

lemma normalize_head:
  "normalize_multiline_dates (y # r) = y # normalize_multiline_dates r
   \<or> (\<exists>m R. normalize_multiline_dates (y # r) = m # R \<and> inert m)"
proof -
  have a: "re_match year_re (r ! 0) \<Longrightarrow> inert (y @ '' '' @ r ! 0)"
    by (rule year_merge_inert)
  have b: "re_match year_re (r ! 1) \<Longrightarrow> inert (y @ '' '' @ r ! 0 @ '' '' @ r ! 1)"
    using year_merge_inert [of "r ! 1" "y @ '' '' @ r ! 0"] by simp
  show ?thesis
    using a b by (simp del: append.simps append_assoc)
qed

lemma normalize_keep:
  assumes a: "\<not> (1 \<le> length rest \<and> re_match day_mon_re line \<and> re_match year_re (rest ! 0))"
    and b: "\<not> (2 \<le> length rest \<and> re_match short_day_re line \<and> re_match short_mon_re (rest ! 0)
              \<and> re_match year_re (rest ! 1))"
  shows "normalize_multiline_dates (line # normalize_multiline_dates rest)
         = line # normalize_multiline_dates (normalize_multiline_dates rest)"
proof (cases rest)
  case Nil
  then show ?thesis by simp
next
  case (Cons y r)
  let ?N = "normalize_multiline_dates rest"
  from normalize_head [of y r] show ?thesis
  proof
    assume "\<exists>m R. normalize_multiline_dates (y # r) = m # R \<and> inert m"
    then obtain m R where m: "?N = m # R" "inert m" using Cons by auto
    then show ?thesis by (simp add: inert_def)
  next
    assume h: "normalize_multiline_dates (y # r) = y # normalize_multiline_dates r"
    then have N: "?N = y # normalize_multiline_dates r" using Cons by simp
    have a': "\<not> (re_match day_mon_re line \<and> re_match year_re y)"
      using a Cons by simp
    show ?thesis
    proof (cases r)
      case Nil
      with N a' show ?thesis by simp
    next
      case (Cons z r')
      have b': "\<not> (re_match short_day_re line \<and> re_match short_mon_re y \<and> re_match year_re z)"
        using b \<open>rest = y # r\<close> Cons by simp
      from normalize_head [of z r'] show ?thesis
      proof
        assume "\<exists>m R. normalize_multiline_dates (z # r') = m # R \<and> inert m"
        then obtain m R where m: "normalize_multiline_dates r = m # R" "inert m"
          using Cons by auto
        with N a' show ?thesis by (simp add: inert_def)
      next
        assume "normalize_multiline_dates (z # r') = z # normalize_multiline_dates r'"
        then have "normalize_multiline_dates r = z # normalize_multiline_dates r'"
          using Cons by simp
        with N a' b' show ?thesis by simp
      qed
    qed
  qed
qed

lemma normalize_idem:
  "normalize_multiline_dates (normalize_multiline_dates L) = normalize_multiline_dates L"
proof (induction L rule: normalize_multiline_dates.induct)
  case 1
  then show ?case by simp
next
  case (2 line rest)
  let ?a = "1 \<le> length rest \<and> re_match day_mon_re line \<and> re_match year_re (rest ! 0)"
  let ?b = "2 \<le> length rest \<and> re_match short_day_re line \<and> re_match short_mon_re (rest ! 0)
              \<and> re_match year_re (rest ! 1)"
  show ?case
  proof (cases ?a)
    case True
    then have i: "inert (line @ '' '' @ rest ! 0)"
      using year_merge_inert [of "rest ! 0" line] by simp
    have "normalize_multiline_dates (line # rest)
          = (line @ '' '' @ rest ! 0) # normalize_multiline_dates (drop 1 rest)"
      using True by simp
    then show ?thesis
      using normalize_inert_head [OF i] "2.IH"(1) [OF True] by simp
  next
    case na: False
    show ?thesis
    proof (cases ?b)
      case True
      then have i: "inert (line @ '' '' @ rest ! 0 @ '' '' @ rest ! 1)"
        using year_merge_inert [of "rest ! 1" "line @ '' '' @ rest ! 0"] by simp
      have "normalize_multiline_dates (line # rest)
            = (line @ '' '' @ rest ! 0 @ '' '' @ rest ! 1) # normalize_multiline_dates (drop 2 rest)"
        using na True by simp
      then show ?thesis
        using normalize_inert_head [OF i] "2.IH"(2) [OF na True] by simp
    next
      case nb: False
      have "normalize_multiline_dates (line # rest) = line # normalize_multiline_dates rest"
        using na nb by simp
      then show ?thesis
        using normalize_keep [OF na nb] "2.IH"(3) [OF na nb] by simp
    qed
  qed
qed

text \<open>
  Claim C7. \<open>_normalize_multiline_dates\<close> is idempotent: normalising an already
  normalised sequence of lines changes nothing, for every sequence of lines.
\<close>

theorem normalize_multiline_dates_idempotent:
  "normalize_multiline_dates (normalize_multiline_dates L) = normalize_multiline_dates L"
  by (rule normalize_idem)

theorem normalize_multiline_dates_idempotent_witness:
  "normalize_multiline_dates [''1 Jan'', ''2024'', ''x'', ''12'', ''Feb'', ''2023'', ''7'']
     = [''1 Jan 2024'', ''x'', ''12 Feb 2023'', ''7'']
   \<and> normalize_multiline_dates [''1 Jan 2024'', ''x'', ''12 Feb 2023'', ''7'']
     = [''1 Jan 2024'', ''x'', ''12 Feb 2023'', ''7'']"
proof -
  have e: "normalize_multiline_dates [''1 Jan'', ''2024'', ''x'', ''12'', ''Feb'', ''2023'', ''7'']
     = [''1 Jan 2024'', ''x'', ''12 Feb 2023'', ''7'']"
    by (simp add: rx_eval day_mon_re_def year_re_def short_day_re_def short_mon_re_def)
  show ?thesis
    using normalize_multiline_dates_idempotent
      [of "[''1 Jan'', ''2024'', ''x'', ''12'', ''Feb'', ''2023'', ''7'']"]
    unfolding e by (simp only: e simp_thms)
qed

lemmas parse_eval = rx_eval rx_finditer_def rx_findall_def rx_finditer_from.simps rx_sub.simps
  amt_re_def date_token_def date_line_match_def
  day_mon_re_def year_re_def short_day_re_def short_mon_re_def
  py_upper_def upper_char_def py_lower_def lower_char_def py_strip_def
  seg_step_def seg_init_def flush_current_def segment_post_value_def
  meta_step_def meta_init_def extract_meta_def post_value_debit_keys_def py_split_ws1_def
  post_value_record_def parse_sbi_post_value_def SBI_POST_VALUE_def
  amount_of_def amount_eval Let_def post_value_transactions_def

section \<open>The PostValue segmenter\<close>

lemma seg_step_header_inv:
  "(in_table st \<longrightarrow> header_seen st) \<Longrightarrow> (in_table (seg_step st l) \<longrightarrow> header_seen (seg_step st l))"
  by (simp add: seg_step_def Let_def split: option.splits prod.splits)

lemma seg_loop_header_inv:
  "(in_table st \<longrightarrow> header_seen st)
   \<Longrightarrow> (in_table (foldl seg_step st ls) \<longrightarrow> header_seen (foldl seg_step st ls))"
proof (induction ls arbitrary: st)
  case Nil
  then show ?case by simp
next
  case (Cons l ls)
  from Cons.IH [OF seg_step_header_inv [OF Cons.prems]] show ?case by simp
qed

lemma seg_reachable_header:
  "in_table (foldl seg_step seg_init ls) \<Longrightarrow> header_seen (foldl seg_step seg_init ls)"
  using seg_loop_header_inv [of seg_init ls] by (simp add: seg_init_def)

lemma seg_step_discard:
  assumes "in_table st" "header_seen st" "current st = None" "date_line_match l = None"
  shows "seg_step st l = st"
  using assms by (simp add: seg_step_def Let_def)

lemma seg_loop_discard:
  assumes "in_table st" "header_seen st" "current st = None"
    and "\<forall>l \<in> set mid. date_line_match l = None"
  shows "foldl seg_step st mid = st"
  using assms(4)
proof (induction mid)
  case Nil
  then show ?case by simp
next
  case (Cons l mid)
  then show ?case using assms(1-3) by (simp add: seg_step_discard)
qed

lemma segment_discards:
  assumes "in_table (foldl seg_step seg_init pre)"
    and "current (foldl seg_step seg_init pre) = None"
    and "\<forall>l \<in> set mid. date_line_match l = None"
  shows "foldl seg_step seg_init (pre @ mid @ post) = foldl seg_step seg_init (pre @ post)"
proof -
  have "foldl seg_step (foldl seg_step seg_init pre) mid = foldl seg_step seg_init pre"
    using seg_loop_discard [OF assms(1) seg_reachable_header [OF assms(1)] assms(2) assms(3)] .
  then show ?thesis by simp
qed

text \<open>
  Claim C10. In the PostValue segmenter, once the table has started (\<open>in_table\<close> after
  the lines \<open>pre\<close>) and while no anchor line has opened a block, every line that does
  not match the two-date pattern is discarded: the blocks, and so the transaction records,
  are those of the same input without these lines \<open>mid\<close>.
\<close>

theorem post_value_lines_before_first_anchor_discarded:
  assumes "in_table (foldl seg_step seg_init pre)"
    and "current (foldl seg_step seg_init pre) = None"
    and "\<forall>l \<in> set mid. date_line_match l = None"
  shows "segment_post_value (pre @ mid @ post) = segment_post_value (pre @ post)
         \<and> post_value_transactions (pre @ mid @ post) = post_value_transactions (pre @ post)"
  using segment_discards [OF assms]
  by (simp add: segment_post_value_def post_value_transactions_def)

lemma header_state:
  "foldl seg_step seg_init [''POST DATE VALUE DATE DESCRIPTION'', ''DEBIT CREDIT BALANCE'']
     = \<lparr>header_seen = True, in_table = True, current = None, transactions_raw = []\<rparr>"
  by (simp add: seg_step_def seg_init_def py_upper_def upper_char_def)

lemma no_anchor_examples:
  "date_line_match ''Opening entries 12.00'' = None"
  "date_line_match ''page 1 of 3'' = None"
  by (simp_all add: date_line_match_def date_token_def rx_eval)

lemma anchor_segment:
  "segment_post_value [''POST DATE VALUE DATE DESCRIPTION'', ''DEBIT CREDIT BALANCE'',
        ''01-04-2024 02-04-2024 ATM WDL 500.00 4500.00'']
   = [\<lparr>b_date = ''01-04-2024'', b_value_date = ''02-04-2024'',
       b_lines = [''ATM WDL 500.00 4500.00'']\<rparr>]"
  by (simp add: parse_eval)

theorem post_value_lines_before_first_anchor_discarded_witness:
  "segment_post_value ([''POST DATE VALUE DATE DESCRIPTION'', ''DEBIT CREDIT BALANCE'']
        @ [''Opening entries 12.00'', ''page 1 of 3'']
        @ [''01-04-2024 02-04-2024 ATM WDL 500.00 4500.00''])
   = [\<lparr>b_date = ''01-04-2024'', b_value_date = ''02-04-2024'',
       b_lines = [''ATM WDL 500.00 4500.00'']\<rparr>]"
proof -
  have a: "in_table (foldl seg_step seg_init
             [''POST DATE VALUE DATE DESCRIPTION'', ''DEBIT CREDIT BALANCE''])"
    and b: "current (foldl seg_step seg_init
             [''POST DATE VALUE DATE DESCRIPTION'', ''DEBIT CREDIT BALANCE'']) = None"
    by (simp_all only: header_state seg_state.simps)
  have c: "\<forall>l \<in> set [''Opening entries 12.00'', ''page 1 of 3'']. date_line_match l = None"
    using no_anchor_examples by simp
  from post_value_lines_before_first_anchor_discarded
         [OF a b c, of "[''01-04-2024 02-04-2024 ATM WDL 500.00 4500.00'']"]
  have "segment_post_value ([''POST DATE VALUE DATE DESCRIPTION'', ''DEBIT CREDIT BALANCE'']
        @ [''Opening entries 12.00'', ''page 1 of 3'']
        @ [''01-04-2024 02-04-2024 ATM WDL 500.00 4500.00''])
      = segment_post_value ([''POST DATE VALUE DATE DESCRIPTION'', ''DEBIT CREDIT BALANCE'']
        @ [''01-04-2024 02-04-2024 ATM WDL 500.00 4500.00''])"
    by (rule conjunct1)
  also have "\<dots> = [\<lparr>b_date = ''01-04-2024'', b_value_date = ''02-04-2024'',
       b_lines = [''ATM WDL 500.00 4500.00'']\<rparr>]"
    using anchor_segment by simp
  finally show ?thesis .
qed

section \<open>The PostValue parser on single rows\<close>

lemma normalize_three_plain:
  "\<not> re_match day_mon_re a \<Longrightarrow> \<not> re_match short_day_re a
   \<Longrightarrow> \<not> re_match day_mon_re b \<Longrightarrow> \<not> re_match short_day_re b
   \<Longrightarrow> normalize_multiline_dates [a, b, c] = [a, b, c]"
  by simp

lemma header_lines_plain:
  "\<not> re_match day_mon_re ''POST DATE VALUE DATE DESCRIPTION''"
  "\<not> re_match short_day_re ''POST DATE VALUE DATE DESCRIPTION''"
  "\<not> re_match day_mon_re ''DEBIT CREDIT BALANCE''"
  "\<not> re_match short_day_re ''DEBIT CREDIT BALANCE''"
  by (simp_all add: rx_eval day_mon_re_def short_day_re_def)

lemma record_atm_500:
  "post_value_record \<lparr>b_date = ''01-04-2024'', b_value_date = ''02-04-2024'',
       b_lines = [''ATM WDL 500.00 4500.00'']\<rparr>
   = \<lparr>date = ''01-04-2024'', value_date = ''02-04-2024'', description = ''ATM WDL'',
      description_line1 = ''ATM WDL'', description_line2 = [], cheque_ref = [],
      debit = 500, credit = 0, balance = 500,
      orig_debit_text = [], orig_credit_text = [], orig_balance_text = ''500.00''\<rparr>"
  by (simp add: parse_eval)

lemma transactions_atm_500:
  "transactions (parse_sbi_post_value
      [''POST DATE VALUE DATE DESCRIPTION'', ''DEBIT CREDIT BALANCE'',
       ''01-04-2024 02-04-2024 ATM WDL 500.00 4500.00''])
   = [\<lparr>date = ''01-04-2024'', value_date = ''02-04-2024'', description = ''ATM WDL'',
       description_line1 = ''ATM WDL'', description_line2 = [], cheque_ref = [],
       debit = 500, credit = 0, balance = 500,
       orig_debit_text = [], orig_credit_text = [], orig_balance_text = ''500.00''\<rparr>]"
  by (simp add: parse_sbi_post_value_def post_value_transactions_def
      normalize_three_plain header_lines_plain anchor_segment record_atm_500)

text \<open>
  Claim C9. After the header line and the table-start line, the single anchored line
  \<open>01-04-2024 02-04-2024 ATM WDL 500.00 4500.00\<close> yields exactly one transaction with
  the dates \<open>01-04-2024\<close> and \<open>02-04-2024\<close>, debit \<open>500.00\<close> and credit \<open>0.0\<close>.
  Its balance is \<open>500.00\<close>, not \<open>4500.00\<close>: the amount pattern wants a comma before
  each group of three digits, so in \<open>4500.00\<close> it finds \<open>500.00\<close>.
\<close>

theorem post_value_anchor_line_balance_500:
  "transactions (parse_sbi_post_value
      [''POST DATE VALUE DATE DESCRIPTION'', ''DEBIT CREDIT BALANCE'',
       ''01-04-2024 02-04-2024 ATM WDL 500.00 4500.00''])
   = [\<lparr>date = ''01-04-2024'', value_date = ''02-04-2024'', description = ''ATM WDL'',
       description_line1 = ''ATM WDL'', description_line2 = [], cheque_ref = [],
       debit = 500, credit = 0, balance = 500,
       orig_debit_text = [], orig_credit_text = [], orig_balance_text = ''500.00''\<rparr>]"
  by (rule transactions_atm_500)

text \<open>With the balance printed as \<open>4,500.00\<close> the same row has the balance \<open>4500.00\<close>.\<close>

lemma record_atm_500_grouped:
  "post_value_record \<lparr>b_date = ''01-04-2024'', b_value_date = ''02-04-2024'',
       b_lines = [''ATM WDL 500.00 4,500.00'']\<rparr>
   = \<lparr>date = ''01-04-2024'', value_date = ''02-04-2024'', description = ''ATM WDL'',
      description_line1 = ''ATM WDL'', description_line2 = [], cheque_ref = [],
      debit = 500, credit = 0, balance = 4500,
      orig_debit_text = [], orig_credit_text = [], orig_balance_text = ''4,500.00''\<rparr>"
  by (simp add: parse_eval)

lemma anchor_segment_200:
  "segment_post_value [''POST DATE VALUE DATE DESCRIPTION'', ''DEBIT CREDIT BALANCE'',
        ''01-04-2024 02-04-2024 ATM WDL 200.00 1,000.00'']
   = [\<lparr>b_date = ''01-04-2024'', b_value_date = ''02-04-2024'',
       b_lines = [''ATM WDL 200.00 1,000.00'']\<rparr>]"
  by (simp add: parse_eval)

lemma record_atm_200:
  "post_value_record \<lparr>b_date = ''01-04-2024'', b_value_date = ''02-04-2024'',
       b_lines = [''ATM WDL 200.00 1,000.00'']\<rparr>
   = \<lparr>date = ''01-04-2024'', value_date = ''02-04-2024'', description = ''ATM WDL'',
      description_line1 = ''ATM WDL'', description_line2 = [], cheque_ref = [],
      debit = 200, credit = 0, balance = 1000,
      orig_debit_text = [], orig_credit_text = [], orig_balance_text = ''1,000.00''\<rparr>"
  by (simp add: parse_eval)

lemma meta_200:
  "extract_meta [''POST DATE VALUE DATE DESCRIPTION'', ''DEBIT CREDIT BALANCE'',
        ''01-04-2024 02-04-2024 ATM WDL 200.00 1,000.00''] = meta_init"
  by (simp add: extract_meta_def meta_step_def py_upper_def upper_char_def)

text \<open>
  Claim C4. The PostValue parser does not back-fill the opening balance: for a document
  with no opening-balance line whose first transaction has balance \<open>1000.00\<close>, debit
  \<open>200.00\<close> and credit \<open>0.0\<close>, it returns the opening balance \<open>0.0\<close>, where the
  back-fill \<open>first.balance + first.debit - first.credit\<close> is \<open>1200.00\<close>. The TxnValue
  parser does back-fill, see \<open>txn_value_backfill\<close> below.
\<close>

theorem post_value_no_backfill:
  "parse_sbi_post_value
      [''POST DATE VALUE DATE DESCRIPTION'', ''DEBIT CREDIT BALANCE'',
       ''01-04-2024 02-04-2024 ATM WDL 200.00 1,000.00'']
   = \<lparr>meta = \<lparr>account_name = [], account_number = [], period = [], opening_balance = 0,
              bank = ''SBI'', layout = ''SBI_POST_VALUE''\<rparr>,
      transactions =
        [\<lparr>date = ''01-04-2024'', value_date = ''02-04-2024'', description = ''ATM WDL'',
          description_line1 = ''ATM WDL'', description_line2 = [], cheque_ref = [],
          debit = 200, credit = 0, balance = 1000,
          orig_debit_text = [], orig_credit_text = [], orig_balance_text = ''1,000.00''\<rparr>]\<rparr>"
  by (simp add: parse_sbi_post_value_def post_value_transactions_def
      normalize_three_plain header_lines_plain anchor_segment_200 record_atm_200 meta_200
      meta_init_def SBI_POST_VALUE_def)

section \<open>Back-fill in the TxnValue parser\<close>

lemma txn_value_backfill:
  assumes "opening_balance (extract_meta (normalize_multiline_dates raw_lines)) = 0"
    and "front (normalize_multiline_dates raw_lines) = f # fs"
  shows "opening_balance (meta (parse_sbi_txn_value front raw_lines))
         = balance (txn_value_record f) + debit (txn_value_record f) - credit (txn_value_record f)"
  using assms
  by (simp add: parse_sbi_txn_value_def backfill_opening_balance_def or_zero_def Let_def)

section \<open>Mutually exclusive movements\<close>

lemma post_value_record_exclusive:
  "debit (post_value_record b) = 0 \<or> credit (post_value_record b) = 0"
  by (simp add: post_value_record_def Let_def split: prod.splits)

lemma txn_value_record_exclusive:
  "debit (txn_value_record f) = 0 \<or> credit (txn_value_record f) = 0"
  by (cases "txn_value_movement (f_desc_main f) (f_cheque_ref f)")
     (simp_all add: txn_value_record_def Let_def)

text \<open>
  Claim C8. In every transaction record that the PostValue parser or the TxnValue parser
  produces, at most one of debit and credit is not zero.
\<close>

theorem parsed_movements_exclusive:
  "(\<forall>t \<in> set (transactions (parse_sbi_post_value raw_lines)). debit t = 0 \<or> credit t = 0)
   \<and> (\<forall>t \<in> set (transactions (parse_sbi_txn_value front raw_lines)).
         debit t = 0 \<or> credit t = 0)"
  by (auto simp: parse_sbi_post_value_def post_value_transactions_def parse_sbi_txn_value_def
      Let_def post_value_record_exclusive txn_value_record_exclusive)

theorem parsed_movements_exclusive_witness:
  "hd (transactions (parse_sbi_post_value
        [''POST DATE VALUE DATE DESCRIPTION'', ''DEBIT CREDIT BALANCE'',
         ''01-04-2024 02-04-2024 ATM WDL 500.00 4500.00'']))
    \<in> set (transactions (parse_sbi_post_value
        [''POST DATE VALUE DATE DESCRIPTION'', ''DEBIT CREDIT BALANCE'',
         ''01-04-2024 02-04-2024 ATM WDL 500.00 4500.00'']))
   \<and> (debit (hd (transactions (parse_sbi_post_value
        [''POST DATE VALUE DATE DESCRIPTION'', ''DEBIT CREDIT BALANCE'',
         ''01-04-2024 02-04-2024 ATM WDL 500.00 4500.00'']))) = 0
      \<or> credit (hd (transactions (parse_sbi_post_value
        [''POST DATE VALUE DATE DESCRIPTION'', ''DEBIT CREDIT BALANCE'',
         ''01-04-2024 02-04-2024 ATM WDL 500.00 4500.00'']))) = 0)"
proof -
  have m: "hd (transactions (parse_sbi_post_value
        [''POST DATE VALUE DATE DESCRIPTION'', ''DEBIT CREDIT BALANCE'',
         ''01-04-2024 02-04-2024 ATM WDL 500.00 4500.00'']))
    \<in> set (transactions (parse_sbi_post_value
        [''POST DATE VALUE DATE DESCRIPTION'', ''DEBIT CREDIT BALANCE'',
         ''01-04-2024 02-04-2024 ATM WDL 500.00 4500.00'']))"
    by (simp add: transactions_atm_500)
  from parsed_movements_exclusive
    [of "[''POST DATE VALUE DATE DESCRIPTION'', ''DEBIT CREDIT BALANCE'',
          ''01-04-2024 02-04-2024 ATM WDL 500.00 4500.00'']" "\<lambda>lines. []"] m
  show ?thesis by blast
qed

section \<open>Layout classification and dispatch\<close>

lemma py_upper_Nil_iff: "py_upper s = [] \<longleftrightarrow> s = []"
  by (simp add: py_upper_def)

lemma py_strip_Nil: "py_strip [] = []"
  by (simp add: py_strip_def)

lemma explicit_layout_alt:
  "explicit_layout layout_arg =
     (case layout_arg of None \<Rightarrow> None
      | Some l \<Rightarrow> if py_strip l \<noteq> [] then Some (py_upper (py_strip l)) else None)"
  by (cases layout_arg) (auto simp: explicit_layout_def py_upper_Nil_iff py_strip_Nil)

lemma layout_sample_take: "layout_sample (take 120 lines) = layout_sample lines"
  by (simp add: layout_sample_def)

lemma auto_layout_take: "auto_layout (take 120 lines) = auto_layout lines"
  by (simp add: auto_layout_def layout_sample_take)

text \<open>
  Claim C6. The layout classifier looks at the first 120 normalised lines, joined and
  upper-cased, and takes the first of: PostValue when they contain \<open>POST DATE\<close>,
  \<open>VALUE DATE\<close> and \<open>DESCRIPTION\<close>; TxnValue when they contain \<open>TXN DATE\<close> and
  \<open>VALUE DATE\<close>; DateDetails when they contain \<open>TXN DATE\<close> and \<open>DETAILS\<close>; else
  nothing. The layout used is the caller's hint (stripped and upper-cased) if one is given
  and not blank, else the detected layout, else PostValue.
\<close>

theorem layout_classifier_decision:
  "auto_layout lines = auto_layout (take 120 lines)
   \<and> auto_layout lines =
       (let sample = py_upper (py_join '' '' (take 120 lines))
        in if py_in ''POST DATE'' sample \<and> py_in ''VALUE DATE'' sample
                \<and> py_in ''DESCRIPTION'' sample
           then Some ''SBI_POST_VALUE''
           else if py_in ''TXN DATE'' sample \<and> py_in ''VALUE DATE'' sample
           then Some ''SBI_TXN_VALUE''
           else if py_in ''TXN DATE'' sample \<and> py_in ''DETAILS'' sample
           then Some ''SBI_DATE_DETAILS''
           else None)
   \<and> use_layout hint lines =
       (case hint of
          Some h \<Rightarrow> if py_strip h \<noteq> [] then py_upper (py_strip h)
                    else (case auto_layout lines of Some a \<Rightarrow> a | None \<Rightarrow> ''SBI_POST_VALUE'')
        | None \<Rightarrow> (case auto_layout lines of Some a \<Rightarrow> a | None \<Rightarrow> ''SBI_POST_VALUE''))"
proof (intro conjI)
  show "auto_layout lines = auto_layout (take 120 lines)"
    by (simp only: auto_layout_take)
  show "auto_layout lines =
       (let sample = py_upper (py_join '' '' (take 120 lines))
        in if py_in ''POST DATE'' sample \<and> py_in ''VALUE DATE'' sample
                \<and> py_in ''DESCRIPTION'' sample
           then Some ''SBI_POST_VALUE''
           else if py_in ''TXN DATE'' sample \<and> py_in ''VALUE DATE'' sample
           then Some ''SBI_TXN_VALUE''
           else if py_in ''TXN DATE'' sample \<and> py_in ''DETAILS'' sample
           then Some ''SBI_DATE_DETAILS''
           else None)"
    unfolding auto_layout_def layout_sample_def SBI_POST_VALUE_def SBI_TXN_VALUE_def
      SBI_DATE_DETAILS_def ..
  show "use_layout hint lines =
       (case hint of
          Some h \<Rightarrow> if py_strip h \<noteq> [] then py_upper (py_strip h)
                    else (case auto_layout lines of Some a \<Rightarrow> a | None \<Rightarrow> ''SBI_POST_VALUE'')
        | None \<Rightarrow> (case auto_layout lines of Some a \<Rightarrow> a | None \<Rightarrow> ''SBI_POST_VALUE''))"
    unfolding use_layout_def explicit_layout_alt SBI_POST_VALUE_def
    by (cases hint) simp_all
qed

lemmas layout_eval = auto_layout_def layout_sample_def py_upper_def upper_char_def
  SBI_POST_VALUE_def SBI_TXN_VALUE_def SBI_DATE_DETAILS_def Let_def

theorem layout_classifier_decision_witness:
  "use_layout None [''Post Date Value Date Description'', ''Debit Credit Balance''] = ''SBI_POST_VALUE''
   \<and> use_layout None [''Txn Date Value Date'', ''Details''] = ''SBI_TXN_VALUE''
   \<and> use_layout None [''Account statement''] = ''SBI_POST_VALUE''
   \<and> use_layout (Some '' sbi_txn_value '') [''Post Date Value Date Description''] = ''SBI_TXN_VALUE''"
proof -
  have a1: "auto_layout [''Post Date Value Date Description'', ''Debit Credit Balance'']
              = Some ''SBI_POST_VALUE''"
    by (simp add: layout_eval)
  have a2: "auto_layout [''Txn Date Value Date'', ''Details''] = Some ''SBI_TXN_VALUE''"
    by (simp add: layout_eval)
  have a3: "auto_layout [''Account statement''] = None"
    by (simp add: layout_eval)
  have s: "py_strip '' sbi_txn_value '' = ''sbi_txn_value''"
    by (simp add: py_strip_def is_space_def)
  have u: "\<And>lines hint. use_layout hint lines =
       (case hint of
          Some h \<Rightarrow> if py_strip h \<noteq> [] then py_upper (py_strip h)
                    else (case auto_layout lines of Some a \<Rightarrow> a | None \<Rightarrow> ''SBI_POST_VALUE'')
        | None \<Rightarrow> (case auto_layout lines of Some a \<Rightarrow> a | None \<Rightarrow> ''SBI_POST_VALUE''))"
    using layout_classifier_decision by blast
  show ?thesis
    by (simp add: u a1 a2 a3 s py_upper_def upper_char_def)
qed

lemma use_layout_date_details_hint:
  "use_layout (Some ''SBI_DATE_DETAILS'') lines = ''SBI_DATE_DETAILS''"
  by (simp add: use_layout_def explicit_layout_def py_strip_def is_space_def py_upper_def
      upper_char_def)

lemma use_layout_hint_eval:
  "use_layout (Some ''SBI_POST_VALUE'') lines = ''SBI_POST_VALUE''"
  "use_layout (Some ''SBI_TXN_VALUE'') lines = ''SBI_TXN_VALUE''"
  "use_layout (Some ''SBI_OTHER'') lines = ''SBI_OTHER''"
  by (simp_all add: use_layout_def explicit_layout_def py_strip_def is_space_def py_upper_def
      upper_char_def)

text \<open>
  The other branches of the dispatch: the two variants that have a parser complete, and a
  layout that is no variant raises \<open>ValueError\<close>.
\<close>

lemma parse_pdf_to_data_other_branches:
  "parse_pdf_to_data front raw_lines (Some ''SBI_POST_VALUE'') = Inr (parse_sbi_post_value raw_lines)"
  "parse_pdf_to_data front raw_lines (Some ''SBI_TXN_VALUE'')
     = Inr (parse_sbi_txn_value front raw_lines)"
  "parse_pdf_to_data front raw_lines (Some ''SBI_OTHER'') = Inl ValueError"
  by (simp_all add: parse_pdf_to_data_def use_layout_hint_eval Let_def
      SBI_POST_VALUE_def SBI_TXN_VALUE_def SBI_DATE_DETAILS_def)

text \<open>
  Claim C5. When the layout resolves to DateDetails, by the caller's hint or by detection,
  \<open>parse_pdf_to_data\<close> does not complete: it raises \<open>NameError\<close>, the parser it calls
  for this variant being defined nowhere.
\<close>

theorem date_details_raises_name_error:
  "parse_pdf_to_data front raw_lines (Some ''SBI_DATE_DETAILS'') = Inl NameError
   \<and> parse_pdf_to_data front [''Txn Date Details Debit Credit Balance''] None = Inl NameError"
proof
  show "parse_pdf_to_data front raw_lines (Some ''SBI_DATE_DETAILS'') = Inl NameError"
    by (simp add: parse_pdf_to_data_def use_layout_date_details_hint Let_def
        SBI_POST_VALUE_def SBI_TXN_VALUE_def SBI_DATE_DETAILS_def)
  have n: "normalize_multiline_dates [''Txn Date Details Debit Credit Balance'']
             = [''Txn Date Details Debit Credit Balance'']"
    by simp
  have a: "auto_layout [''Txn Date Details Debit Credit Balance''] = Some ''SBI_DATE_DETAILS''"
    by (simp add: layout_eval)
  show "parse_pdf_to_data front [''Txn Date Details Debit Credit Balance''] None = Inl NameError"
    unfolding parse_pdf_to_data_def n Let_def use_layout_def explicit_layout_def a
    by (simp add: SBI_POST_VALUE_def SBI_TXN_VALUE_def SBI_DATE_DETAILS_def)
qed

section \<open>The renderer\<close>

lemma rows_per_page_txn: "rows_per_page ''SBI_TXN_VALUE'' = 16"
  by (simp add: rows_per_page_def SBI_TXN_VALUE_def mm_def)

lemma rows_per_page_post: "l \<noteq> SBI_TXN_VALUE \<Longrightarrow> rows_per_page l = 24"
  by (simp add: rows_per_page_def mm_def)

lemma or_zero_id: "or_zero x = x"
  by (simp add: or_zero_def)

lemma render_row_running: "snd (render_row l r t) = running_step r t"
  by (simp add: render_row_def running_step_def or_zero_id Let_def)

lemma render_row_cells:
  "fst (render_row l r t) =
     [Para (date t), Para (value_date t), DescTable (desc_full_of t), Para (cheque_ref t),
      Para (if debit t \<noteq> 0 then format_2f (debit t) else []),
      Para (if credit t \<noteq> 0 then format_2f (credit t) else []),
      Para (py_format_2f (running_step r t) @ (if l = SBI_POST_VALUE then ''CR'' else []))]"
  by (simp add: render_row_def running_step_def or_zero_id Let_def)

lemma render_rows_Cons:
  "render_rows l r (t # ts) =
     (fst (render_row l r t) # fst (render_rows l (running_step r t) ts),
      snd (render_rows l (running_step r t) ts))"
  by (simp add: split_beta Let_def render_row_running)

lemma render_rows_length: "length (fst (render_rows l r ts)) = length ts"
  by (induction ts arbitrary: r) (simp_all add: render_rows_Cons del: render_rows.simps(2))


lemma render_rows_append:
  "render_rows l r (a @ b) =
     (fst (render_rows l r a) @ fst (render_rows l (snd (render_rows l r a)) b),
      snd (render_rows l (snd (render_rows l r a)) b))"
  by (induction a arbitrary: r) (simp_all add: render_rows_Cons del: render_rows.simps(2))

lemma render_rows_nth:
  "i < length ts \<Longrightarrow>
   fst (render_rows l r ts) ! i = fst (render_row l (foldl running_step r (take i ts)) (ts ! i))"
proof (induction ts arbitrary: r i)
  case Nil
  then show ?case by simp
next
  case (Cons t ts)
  show ?case
  proof (cases i)
    case 0
    then show ?thesis by (simp add: render_rows_Cons del: render_rows.simps(2))
  next
    case (Suc j)
    with Cons.prems have "j < length ts" by simp
    from Cons.IH [OF this, of "running_step r t"] Suc
    show ?thesis
      by (simp add: render_rows_Cons del: render_rows.simps(2))
  qed
qed


lemma body_rows_of_table:
  "body_rows_of l (Table ([header_row l] @ rows @ (if l = SBI_POST_VALUE then [footer_row] else [])) 1)
     = rows"
  by (simp add: body_rows_of_def butlast_append)

lemma render_pages_body_rows:
  "0 < n \<Longrightarrow> story_body_rows l (render_pages l n r txns) = fst (render_rows l r txns)"
proof (induction l n r txns rule: render_pages.induct)
  case (1 l n running txns)
  show ?case
  proof (cases "txns = []")
    case True
    then show ?thesis by (simp add: render_pages.simps story_body_rows_def)
  next
    case False
    define rows where "rows = fst (render_rows l running (take n txns))"
    define running1 where "running1 = snd (render_rows l running (take n txns))"
    have rr: "render_rows l running (take n txns) = (rows, running1)"
      by (simp add: rows_def running1_def)
    have ih: "story_body_rows l (render_pages l n running1 (drop n txns))
                = fst (render_rows l running1 (drop n txns))"
      using "1.IH" [OF _ rr [symmetric] refl refl] False "1.prems" by simp
    have unfold: "render_pages l n running txns =
        [Table ([header_row l] @ rows @ (if l = SBI_POST_VALUE then [footer_row] else [])) 1]
        @ (if n < length txns then [PageBreak] else [])
        @ render_pages l n running1 (drop n txns)"
      using False "1.prems" by (subst render_pages.simps) (simp add: rr)
    have "story_body_rows l (render_pages l n running txns)
            = rows @ fst (render_rows l running1 (drop n txns))"
      unfolding unfold using ih body_rows_of_table [of l rows]
      by (simp add: story_body_rows_def body_rows_of_def)
    also have "\<dots> = fst (render_rows l running txns)"
      using render_rows_append [of l running "take n txns" "drop n txns"]
      by (simp add: rows_def running1_def)
    finally show ?thesis .
  qed
qed

lemma rows_per_page_pos: "0 < rows_per_page l"
  by (simp add: rows_per_page_def Let_def max_def)

lemma meta_block_body_rows: "story_body_rows l (meta_block l m) = []"
  by (simp add: story_body_rows_def meta_block_def body_rows_of_def)

lemma story_body_rows_append:
  "story_body_rows l (a @ b) = story_body_rows l a @ story_body_rows l b"
  by (simp add: story_body_rows_def)

lemma generate_body_rows:
  "story_body_rows (render_layout obj) (generate_pdf_from_data obj)
     = fst (render_rows (render_layout obj) (Fin (opening_balance (meta (data obj))))
             (transactions (data obj)))"
  by (simp add: generate_pdf_from_data_def Let_def story_body_rows_append meta_block_body_rows
      render_pages_body_rows [OF rows_per_page_pos] or_zero_id)

lemma running_total_step:
  assumes "i < length (transactions (data obj))"
  shows "running_step
           (foldl running_step (Fin (opening_balance (meta (data obj))))
              (take i (transactions (data obj))))
           (transactions (data obj) ! i)
         = running_total obj i"
  using assms by (simp add: running_total_def take_Suc_conv_app_nth)

lemma generate_body_row:
  assumes "i < length (transactions (data obj))"
  shows "story_body_rows (render_layout obj) (generate_pdf_from_data obj) ! i
     = [Para (date (transactions (data obj) ! i)),
        Para (value_date (transactions (data obj) ! i)),
        DescTable (desc_full_of (transactions (data obj) ! i)),
        Para (cheque_ref (transactions (data obj) ! i)),
        Para (if debit (transactions (data obj) ! i) \<noteq> 0
              then format_2f (debit (transactions (data obj) ! i)) else []),
        Para (if credit (transactions (data obj) ! i) \<noteq> 0
              then format_2f (credit (transactions (data obj) ! i)) else []),
        Para (py_format_2f (running_total obj i)
              @ (if render_layout obj = SBI_POST_VALUE then ''CR'' else []))]"
  unfolding generate_body_rows render_rows_nth [OF assms] render_row_cells
    running_total_step [OF assms] ..

lemma render_row_balance_irrelevant:
  "render_row l r (t\<lparr>balance := b\<rparr>) = render_row l r t"
  by (simp add: render_row_def desc_full_of_def Let_def)

lemma render_rows_balance_irrelevant:
  "render_rows l r (map (\<lambda>t. t\<lparr>balance := g t\<rparr>) ts) = render_rows l r ts"
  by (induction ts arbitrary: r) (simp_all add: render_row_balance_irrelevant)

lemma render_pages_balance_irrelevant:
  "render_pages l n r (map (\<lambda>t. t\<lparr>balance := g t\<rparr>) ts) = render_pages l n r ts"
proof (induction l n r ts rule: render_pages.induct)
  case (1 l n running txns)
  show ?case
  proof (cases "txns = [] \<or> n = 0")
    case True
    then show ?thesis by (auto simp: render_pages.simps)
  next
    case False
    define rows where "rows = fst (render_rows l running (take n txns))"
    define running1 where "running1 = snd (render_rows l running (take n txns))"
    have rr: "render_rows l running (take n txns) = (rows, running1)"
      by (simp add: rows_def running1_def)
    have rr': "render_rows l running (take n (map (\<lambda>t. t\<lparr>balance := g t\<rparr>) txns)) = (rows, running1)"
      by (simp add: take_map render_rows_balance_irrelevant rr)
    have ih: "render_pages l n running1 (map (\<lambda>t. t\<lparr>balance := g t\<rparr>) (drop n txns))
                = render_pages l n running1 (drop n txns)"
      using "1.IH" [OF False rr [symmetric] refl refl] .
    have a: "render_pages l n running txns =
        [Table ([header_row l] @ rows @ (if l = SBI_POST_VALUE then [footer_row] else [])) 1]
        @ (if n < length txns then [PageBreak] else [])
        @ render_pages l n running1 (drop n txns)"
      using False by (subst render_pages.simps) (simp add: rr)
    have b: "render_pages l n running (map (\<lambda>t. t\<lparr>balance := g t\<rparr>) txns) =
        [Table ([header_row l] @ rows @ (if l = SBI_POST_VALUE then [footer_row] else [])) 1]
        @ (if n < length txns then [PageBreak] else [])
        @ render_pages l n running1 (map (\<lambda>t. t\<lparr>balance := g t\<rparr>) (drop n txns))"
      using False by (subst render_pages.simps) (simp add: rr' drop_map)
    show ?thesis
      unfolding a b ih ..
  qed
qed

lemma generate_balance_irrelevant:
  "generate_pdf_from_data
     (obj\<lparr>data := (data obj)\<lparr>transactions :=
                     map (\<lambda>t. t\<lparr>balance := g t\<rparr>) (transactions (data obj))\<rparr>\<rparr>)
   = generate_pdf_from_data obj"
  by (simp add: generate_pdf_from_data_def render_layout_def render_pages_balance_irrelevant)





lemma example_layout: "render_layout example_statement = ''SBI_POST_VALUE''"
  by (simp add: render_layout_def example_statement_def)


lemma example_story:
  "generate_pdf_from_data example_statement =
     [Table [[Para ''<b>Mr. A</b>'', Para ''Opening Balance: 0.00CR''],
             [Para ''Account No: 1234'', Para ''Period: '']] 0,
      Table [header_row ''SBI_POST_VALUE'',
             [Para ''01-04-2024'', Para ''02-04-2024'', DescTable ''ATM WDL'',
              Para [], Para ''500.00'', Para [], Para ''-500.00CR''],
             [Para ''03-04-2024'', Para ''03-04-2024'', DescTable ''BY TRANSFER'',
              Para [], Para [], Para ''120.00'', Para ''-380.00CR''],
             footer_row] 1]"
proof -
  have l: "render_layout example_statement = SBI_POST_VALUE"
    by (simp add: example_layout SBI_POST_VALUE_def)
  have n: "rows_per_page SBI_POST_VALUE = 24"
    by (rule rows_per_page_post) (simp add: SBI_POST_VALUE_def SBI_TXN_VALUE_def)
  have f: "to_float (- 500) = Fin (- 500)" "to_float (- 380) = Fin (- 380)"
    using to_float_of_int [of "- 500"] to_float_of_int [of "- 380"] by simp_all
  have g: "format_2f 0 = ''0.00''" "format_2f 500 = ''500.00''" "format_2f 120 = ''120.00''"
    "format_2f (- 500) = ''-500.00''" "format_2f (- 380) = ''-380.00''"
    by (simp_all add: format_eval)
  show ?thesis
    unfolding generate_pdf_from_data_def Let_def l n
    by (simp add: example_statement_def meta_block_def render_pages.simps render_row_def
        or_zero_def desc_full_of_def py_strip_def is_space_def Let_def fsub_def f g)
      (simp add: SBI_POST_VALUE_def)
qed







text \<open>
  Claim C2, as amended. The story has one body row for each transaction, in order. The
  debit and credit cells of a row show that record's debit and credit rounded to two
  decimal places, with thousands separators, a zero movement being an empty cell. The
  balance cell shows, in the same format, the renderer's running total and not the
  record's stored \<open>balance\<close>, which the renderer does not read: changing the stored
  balances leaves the story as it is.
\<close>

theorem rendered_rows_show_formatted_movements:
  "length (story_body_rows (render_layout obj) (generate_pdf_from_data obj))
     = length (transactions (data obj))
   \<and> (\<forall>i < length (transactions (data obj)).
        story_body_rows (render_layout obj) (generate_pdf_from_data obj) ! i ! 0
          = Para (date (transactions (data obj) ! i))
        \<and> story_body_rows (render_layout obj) (generate_pdf_from_data obj) ! i ! 4
          = Para (if debit (transactions (data obj) ! i) \<noteq> 0
                  then format_2f (debit (transactions (data obj) ! i)) else [])
        \<and> story_body_rows (render_layout obj) (generate_pdf_from_data obj) ! i ! 5
          = Para (if credit (transactions (data obj) ! i) \<noteq> 0
                  then format_2f (credit (transactions (data obj) ! i)) else [])
        \<and> story_body_rows (render_layout obj) (generate_pdf_from_data obj) ! i ! 6
          = Para (py_format_2f (running_total obj i)
                  @ (if render_layout obj = SBI_POST_VALUE then ''CR'' else [])))
   \<and> generate_pdf_from_data
        (obj\<lparr>data := (data obj)\<lparr>transactions :=
                        map (\<lambda>t. t\<lparr>balance := g t\<rparr>) (transactions (data obj))\<rparr>\<rparr>)
      = generate_pdf_from_data obj"
proof (intro conjI allI impI)
  show "length (story_body_rows (render_layout obj) (generate_pdf_from_data obj))
          = length (transactions (data obj))"
    by (simp add: generate_body_rows render_rows_length)
  show "generate_pdf_from_data
        (obj\<lparr>data := (data obj)\<lparr>transactions :=
                        map (\<lambda>t. t\<lparr>balance := g t\<rparr>) (transactions (data obj))\<rparr>\<rparr>)
      = generate_pdf_from_data obj"
    by (rule generate_balance_irrelevant)
next
  fix i assume i: "i < length (transactions (data obj))"
  show "story_body_rows (render_layout obj) (generate_pdf_from_data obj) ! i ! 0
          = Para (date (transactions (data obj) ! i))"
    unfolding generate_body_row [OF i] by simp
  show "story_body_rows (render_layout obj) (generate_pdf_from_data obj) ! i ! 4
          = Para (if debit (transactions (data obj) ! i) \<noteq> 0
                  then format_2f (debit (transactions (data obj) ! i)) else [])"
    unfolding generate_body_row [OF i] by simp
  show "story_body_rows (render_layout obj) (generate_pdf_from_data obj) ! i ! 5
          = Para (if credit (transactions (data obj) ! i) \<noteq> 0
                  then format_2f (credit (transactions (data obj) ! i)) else [])"
    unfolding generate_body_row [OF i] by simp
  show "story_body_rows (render_layout obj) (generate_pdf_from_data obj) ! i ! 6
          = Para (py_format_2f (running_total obj i)
                  @ (if render_layout obj = SBI_POST_VALUE then ''CR'' else []))"
    unfolding generate_body_row [OF i] by simp
qed

theorem rendered_rows_show_formatted_movements_witness:
  "length (story_body_rows ''SBI_POST_VALUE'' (generate_pdf_from_data example_statement)) = 2
   \<and> story_body_rows ''SBI_POST_VALUE'' (generate_pdf_from_data example_statement) ! 0 ! 4
       = Para ''500.00''
   \<and> story_body_rows ''SBI_POST_VALUE'' (generate_pdf_from_data example_statement) ! 0 ! 5
       = Para []"
proof -
  have i: "0 < length (transactions (data example_statement))"
    by (simp add: example_statement_def)
  from rendered_rows_show_formatted_movements [of example_statement] i
  have "length (story_body_rows (render_layout example_statement)
                  (generate_pdf_from_data example_statement))
          = length (transactions (data example_statement))
        \<and> story_body_rows (render_layout example_statement)
            (generate_pdf_from_data example_statement) ! 0 ! 4
          = Para (if debit (transactions (data example_statement) ! 0) \<noteq> 0
                  then format_2f (debit (transactions (data example_statement) ! 0))
                  else [])
        \<and> story_body_rows (render_layout example_statement)
            (generate_pdf_from_data example_statement) ! 0 ! 5
          = Para (if credit (transactions (data example_statement) ! 0) \<noteq> 0
                  then format_2f (credit (transactions (data example_statement) ! 0))
                  else [])"
    by blast
  moreover have "format_2f 500 = ''500.00''"
    by (simp add: format_eval)
  ultimately show ?thesis
    unfolding example_layout by (simp add: example_statement_def)
qed

theorem balance_cell_not_stored_balance_counterexample:
  "story_body_rows ''SBI_POST_VALUE'' (generate_pdf_from_data example_statement) ! 0 ! 6
     = Para ''-500.00CR''
   \<and> balance (transactions (data example_statement) ! 0) = 4500
   \<and> format_2f 4500 = ''4,500.00''"
proof (intro conjI)
  show "story_body_rows ''SBI_POST_VALUE'' (generate_pdf_from_data example_statement) ! 0 ! 6
     = Para ''-500.00CR''"
    unfolding example_story
    by (simp add: story_body_rows_def body_rows_of_def SBI_POST_VALUE_def)
  show "balance (transactions (data example_statement) ! 0) = 4500"
    by (simp add: example_statement_def)
  show "format_2f 4500 = ''4,500.00''"
    by (simp add: format_eval)
qed

section \<open>AmountToken on Unicode text\<close>

lemma code_points_eval:
  "code_points ''CR'' = [0x43, 0x52]" "code_points ''DR'' = [0x44, 0x52]"
  "code_points '','' = [0x2C]" "code_points '' '' = [0x20]"
  "code_points '')'' = [0x29]" "code_points ''('' = [0x28]"
  "code_points ''-'' = [0x2D]" "code_points ''.'' = [0x2E]"
  by (simp_all add: code_points_def)

lemma not_decimal_digit:
  "\<not> is_decimal_digit 0x28" "\<not> is_decimal_digit 0x29" "\<not> is_decimal_digit 0x2C"
  "\<not> is_decimal_digit 0x2D" "\<not> is_decimal_digit 0x2E" "\<not> is_decimal_digit 0x20"
  "\<not> is_decimal_digit 0xA0" "\<not> is_decimal_digit 0x43" "\<not> is_decimal_digit 0x52"
  "\<not> is_decimal_digit 0x44"
  by (simp_all add: is_decimal_digit_def unicode_zero_digits_def)

lemma whitespace_not_digit: "is_whitespace c \<Longrightarrow> \<not> is_decimal_digit c"
proof -
  have "list_all (\<lambda>c. \<not> is_decimal_digit c) whitespace_code_points"
    by (simp add: whitespace_code_points_def is_decimal_digit_def unicode_zero_digits_def)
  then show "is_whitespace c \<Longrightarrow> \<not> is_decimal_digit c"
    by (simp add: is_whitespace_def list_all_iff)
qed

lemma whitespace_not_amount: "is_whitespace c \<Longrightarrow> \<not> amount_code_point c"
  using whitespace_not_digit [of c]
  by (auto simp: amount_code_point_def is_whitespace_def whitespace_code_points_def)

lemma strip_whitespace_id: "\<forall>c \<in> set s. \<not> is_whitespace c \<Longrightarrow> strip_whitespace s = s"
proof -
  assume a: "\<forall>c \<in> set s. \<not> is_whitespace c"
  have d: "\<And>t. \<forall>c \<in> set t. \<not> is_whitespace c \<Longrightarrow> dropWhile is_whitespace t = t"
    by (case_tac t) auto
  show ?thesis
    unfolding strip_whitespace_def using a by (simp add: d)
qed

lemma amount_or_open_simps:
  "amount_or_open_code_point 0x28" "\<not> amount_or_open_code_point 0x29"
  "\<not> amount_or_open_code_point 0x2C" "\<not> amount_or_open_code_point 0x20"
  "\<not> amount_or_open_code_point 0xA0" "\<not> amount_or_open_code_point 0x43"
  "\<not> amount_or_open_code_point 0x52" "\<not> amount_or_open_code_point 0x44"
  "amount_code_point 0x2D" "amount_code_point 0x2E"
  "\<not> amount_code_point 0x28" "\<not> amount_code_point 0x29"
  by (simp_all add: amount_or_open_code_point_def amount_code_point_def not_decimal_digit)

lemma paren_steps_unicode:
  "filter amount_code_point (py_replace [0x29] [] (py_replace [0x28] [0x2D] t))
     = map (\<lambda>c. if c = 0x28 then 0x2D else c) (filter amount_or_open_code_point t)"
  unfolding py_replace_single_map py_replace_single_filter
  by (induction t) (auto simp: amount_or_open_simps amount_or_open_code_point_def)

lemma open_to_minus_filter:
  "filter amount_code_point (open_to_minus t)
     = map (\<lambda>c. if c = 0x28 then 0x2D else c) (filter amount_or_open_code_point t)"
  unfolding open_to_minus_def
  by (induction t) (auto simp: amount_or_open_simps amount_or_open_code_point_def)

lemma strip_suffix_crdr_filter:
  "filter amount_or_open_code_point (strip_suffix_crdr s) = filter amount_or_open_code_point s"
proof -
  have "\<And>y. filter amount_or_open_code_point (y @ [0x43, 0x52]) = filter amount_or_open_code_point y"
       "\<And>y. filter amount_or_open_code_point (y @ [0x44, 0x52]) = filter amount_or_open_code_point y"
    by (simp_all add: amount_or_open_simps)
  then show ?thesis
    unfolding strip_suffix_crdr_def code_points_eval by (auto simp: suffix_def)
qed

lemma code_cleaned_unicode:
  "filter amount_code_point (py_replace [0x29] [] (py_replace [0x28] [0x2D]
      (py_replace [0xA0] [0x20] (py_replace [0x2C] []
        (py_replace [0x44, 0x52] [] (py_replace [0x43, 0x52] [] u))))))
   = map (\<lambda>c. if c = 0x28 then 0x2D else c) (filter amount_or_open_code_point u)"
  by (simp add: paren_steps_unicode py_replace_filter amount_or_open_simps)

lemma rules_cleaned_unicode:
  "filter amount_code_point (open_to_minus
      (map (\<lambda>c. if c = 0xA0 then 0x20 else c)
        (filter (\<lambda>c. c \<noteq> 0x2C) (strip_suffix_crdr u))))
   = map (\<lambda>c. if c = 0x28 then 0x2D else c) (filter amount_or_open_code_point u)"
proof -
  have a: "\<And>t. filter amount_or_open_code_point (map (\<lambda>c. if c = 0xA0 then 0x20 else c) t)
             = filter amount_or_open_code_point t"
    by (induct_tac t) (auto simp: amount_or_open_simps)
  have b: "\<And>t. filter amount_or_open_code_point (filter (\<lambda>c. c \<noteq> 0x2C) t)
             = filter amount_or_open_code_point t"
    by (induct_tac t) (auto simp: amount_or_open_simps)
  show ?thesis
    by (simp only: open_to_minus_filter a b strip_suffix_crdr_filter)
qed

lemma cleaned_no_whitespace:
  "\<forall>c \<in> set (map (\<lambda>c. if c = 0x28 then 0x2D else c) (filter amount_or_open_code_point u)).
     \<not> is_whitespace c"
proof -
  have "\<not> is_whitespace 0x2D"
    by (simp add: is_whitespace_def whitespace_code_points_def)
  moreover have "\<And>c. amount_code_point c \<Longrightarrow> \<not> is_whitespace c"
    using whitespace_not_amount by blast
  ultimately show ?thesis
    by (auto simp: amount_or_open_code_point_def)
qed

lemma parse_amount_with_cleaned:
  fixes up :: "nat \<Rightarrow> nat list" and s :: "nat list"
  assumes "s \<noteq> []"
  defines "c \<equiv> map (\<lambda>c. if c = 0x28 then 0x2D else c)
                 (filter amount_or_open_code_point (concat (map up s)))"
  shows "parse_amount_with up s =
    (case (if c \<notin> set [[], [0x2D], [0x2E]] then float_of_text c else Inr (Fin 0)) of
       Inl e \<Rightarrow> Inr (Fin 0) | Inr v \<Rightarrow> Inr v)"
  unfolding parse_amount_with_def Let_def code_points_eval code_cleaned_unicode
    strip_whitespace_id [OF cleaned_no_whitespace] c_def
  using assms(1) by (simp only: if_False)

lemma amount_token_rules_with_cleaned:
  fixes up :: "nat \<Rightarrow> nat list"
  defines "c \<equiv> \<lambda>s. map (\<lambda>c. if c = 0x28 then 0x2D else c)
                     (filter amount_or_open_code_point (concat (map up s)))"
  shows "amount_token_rules_with up s =
    (if c s = [] \<or> c s = [0x2D] \<or> c s = [0x2E] then Fin 0 else float_or_zero (c s))"
  unfolding amount_token_rules_with_def Let_def rules_cleaned_unicode code_points_eval c_def ..

lemma parse_amount_with_eq_rules:
  "parse_amount_with up s = Inr (amount_token_rules_with up s)"
proof (cases "s = []")
  case True
  have "amount_token_rules_with up [] = Fin 0"
    unfolding amount_token_rules_with_cleaned by simp
  with True show ?thesis
    by (simp add: parse_amount_with_def)
next
  case False
  define c where
    "c = map (\<lambda>c. if c = 0x28 then 0x2D else c)
           (filter amount_or_open_code_point (concat (map up s)))"
  have p: "parse_amount_with up s =
    (case (if c \<notin> set [[], [0x2D], [0x2E]] then float_of_text c else Inr (Fin 0)) of
       Inl e \<Rightarrow> Inr (Fin 0) | Inr v \<Rightarrow> Inr v)"
    unfolding c_def by (rule parse_amount_with_cleaned [OF False])
  have r: "amount_token_rules_with up s =
    (if c = [] \<or> c = [0x2D] \<or> c = [0x2E] then Fin 0 else float_or_zero c)"
    unfolding c_def by (rule amount_token_rules_with_cleaned)
  show ?thesis
  proof (cases "c = [] \<or> c = [0x2D] \<or> c = [0x2E]")
    case True
    then have "c \<in> set [[], [0x2D], [0x2E]]" by auto
    with True p r show ?thesis by (simp del: set_simps)
  next
    case False
    then have n: "c \<notin> set [[], [0x2D], [0x2E]]" by auto
    show ?thesis
      unfolding p r float_or_zero_def using False n
      by (cases "float_of_text c") (simp_all del: set_simps)
  qed
qed

lemma filter_concat_keeps:
  assumes "keeps_amount_characters up"
  shows "filter amount_or_open_code_point (concat (map up s)) = filter amount_or_open_code_point s"
proof (induction s)
  case Nil
  then show ?case by simp
next
  case (Cons a s)
  have "filter amount_or_open_code_point (up a) = filter amount_or_open_code_point [a]"
    using assms by (simp only: keeps_amount_characters_def)
  with Cons show ?case by simp
qed

lemma ascii_upper_keeps: "keeps_amount_characters ascii_upper"
proof -
  have d: "\<And>c. 0x3A \<le> c \<Longrightarrow> c < 0x660 \<Longrightarrow> \<not> is_decimal_digit c"
    by (simp add: is_decimal_digit_def unicode_zero_digits_def)
  have "\<And>c. 0x61 \<le> c \<Longrightarrow> c \<le> 0x7A \<Longrightarrow>
          \<not> amount_or_open_code_point c \<and> \<not> amount_or_open_code_point (c - 0x20)"
  proof -
    fix c :: nat
    assume c: "0x61 \<le> c" "c \<le> 0x7A"
    have "\<not> is_decimal_digit c" "\<not> is_decimal_digit (c - 0x20)"
      using c by (intro d; simp)+
    moreover have "c \<noteq> 0x2E" "c \<noteq> 0x2D" "c \<noteq> 0x28"
        "c - 0x20 \<noteq> 0x2E" "c - 0x20 \<noteq> 0x2D" "c - 0x20 \<noteq> 0x28"
      using c by simp_all
    ultimately show "\<not> amount_or_open_code_point c \<and> \<not> amount_or_open_code_point (c - 0x20)"
      by (simp add: amount_or_open_code_point_def amount_code_point_def)
  qed
  then show ?thesis
    by (auto simp: keeps_amount_characters_def ascii_upper_def)
qed

lemma amount_token_rules_with_keeps:
  assumes "keeps_amount_characters up"
  shows "amount_token_rules_with up s =
    (let c = map (\<lambda>c. if c = 0x28 then 0x2D else c) (filter amount_or_open_code_point s)
     in if c = [] \<or> c = [0x2D] \<or> c = [0x2E] then Fin 0 else float_or_zero c)"
  unfolding amount_token_rules_with_cleaned filter_concat_keeps [OF assms] Let_def ..

lemma parse_amount_with_case_irrelevant:
  assumes "keeps_amount_characters up"
  shows "parse_amount_with up s = parse_amount_unicode s"
  unfolding parse_amount_unicode_def parse_amount_with_eq_rules
    amount_token_rules_with_keeps [OF assms] amount_token_rules_with_keeps [OF ascii_upper_keeps] ..

lemma parse_amount_unicode_cleaned:
  "parse_amount_unicode s =
    Inr (let c = map (\<lambda>c. if c = 0x28 then 0x2D else c) (filter amount_or_open_code_point s)
         in if c = [] \<or> c = [0x2D] \<or> c = [0x2E] then Fin 0 else float_or_zero c)"
  unfolding parse_amount_unicode_def parse_amount_with_eq_rules
    amount_token_rules_with_keeps [OF ascii_upper_keeps] ..

lemma parse_amount_unicode_eq_rules:
  "parse_amount_unicode s = Inr (amount_token_rules_unicode s)"
  unfolding parse_amount_unicode_def amount_token_rules_unicode_def
  by (rule parse_amount_with_eq_rules)

lemmas amount_unicode_eval =
  code_points_def amount_or_open_code_point_def amount_code_point_def is_decimal_digit_def
  unicode_zero_digits_def float_or_zero_def float_of_text_def decimal_of_def
  decimal_unsigned_def digits_number_def decimal_digit_value_def Let_def

lemma parse_amount_unicode_1234_50CR:
  "parse_amount_unicode (code_points ''1,234.50CR'') = Inr (Fin 1234.5)"
proof -
  have "to_float (2469 / 2) = Fin (2469 / 2)"
    by (rule to_float_eqI [of 10 _ "- 42"]; simp add: rne_def power_int_minus DBL_MAX_def)
  then show ?thesis
    unfolding parse_amount_unicode_cleaned by (simp add: amount_unicode_eval)
qed

lemma parse_amount_unicode_paren_500:
  "parse_amount_unicode (code_points ''(500.00)'') = Inr (Fin (- 500))"
proof -
  have "to_float (- 500) = Fin (- 500)"
    using to_float_of_int [of "- 500"] by simp
  then show ?thesis
    unfolding parse_amount_unicode_cleaned by (simp add: amount_unicode_eval)
qed

lemma parse_amount_unicode_empty: "parse_amount_unicode [] = Inr (Fin 0)"
  by (simp add: parse_amount_unicode_def parse_amount_with_def)

lemma parse_amount_unicode_arabic_three: "parse_amount_unicode [0x663] = Inr (Fin 3)"
proof -
  have "to_float 3 = Fin 3"
    using to_float_of_int [of 3] by simp
  then show ?thesis
    unfolding parse_amount_unicode_cleaned by (simp add: amount_unicode_eval)
qed

lemma parse_amount_unicode_open_5: "parse_amount_unicode (code_points ''(5'') = Inr (Fin (- 5))"
proof -
  have "to_float (- 5) = Fin (- 5)"
    using to_float_of_int [of "- 5"] by simp
  then show ?thesis
    unfolding parse_amount_unicode_cleaned by (simp add: amount_unicode_eval)
qed

lemmas claimed_eval =
  claimed_amount_rules_def ascii_upper_def strip_suffix_crdr_def suffix_to_prefix
  negate_value_in_parentheses_def is_ascii_digit_def

lemma claimed_arabic_three: "claimed_amount_rules [0x663] = 0"
  by (simp add: claimed_eval amount_unicode_eval)

lemma claimed_open_5: "claimed_amount_rules (code_points ''(5'') = 5"
  by (simp add: claimed_eval amount_unicode_eval)

lemma claimed_paren_500: "claimed_amount_rules (code_points ''(500.00)'') = - 500"
  by (simp add: claimed_eval amount_unicode_eval)

lemma claimed_1234: "claimed_amount_rules (code_points ''1,234.50CR'') = 1234.5"
  by (simp add: claimed_eval amount_unicode_eval)

lemma rne_lower: "of_int n \<le> y \<Longrightarrow> n \<le> rne y"
proof -
  assume "of_int n \<le> y"
  then have "n \<le> \<lfloor>y\<rfloor>" by (simp only: le_floor_iff)
  then show ?thesis
    unfolding rne_def Let_def by auto
qed

lemma to_float_overflow:
  assumes "2 ^ 1024 \<le> x"
  shows "to_float x = PInf"
proof -
  have x: "0 < x"
    using assms zero_less_power [of "2::real" 1024] by linarith
  define e where "e = \<lfloor>log 2 \<bar>x\<bar>\<rfloor>"
  have "(2::real) powi 1024 \<le> \<bar>x\<bar>"
    using assms x by simp
  then have "\<not> \<bar>x\<bar> < 2 powi 1024" by simp
  then have "\<not> e < 1024"
    using floor_log2_bounds(2) [of "\<bar>x\<bar>"] x power_int_increasing [of "e + 1" 1024 "2::real"]
    unfolding e_def by fastforce
  then have e: "1024 \<le> e" by simp
  then have k: "ulp_exp x = e - 52"
    by (simp add: ulp_exp_def e_def)
  have le: "2 powi e \<le> x"
    using floor_log2_bounds(1) [of "\<bar>x\<bar>"] x by (simp add: e_def)
  have "(2::real) powi e = 2 ^ 52 * 2 powi (e - 52)"
    using power_int_add [of "2::real" 52 "e - 52"] by simp
  then have "of_int (2 ^ 52) \<le> x / 2 powi (e - 52)"
    using le by (simp add: le_divide_eq)
  then have "2 ^ 52 \<le> rne (x / 2 powi (e - 52))"
    by (rule rne_lower)
  then have "(of_int (2 ^ 52) :: real) \<le> of_int (rne (x / 2 powi (e - 52)))"
    by (simp only: of_int_le_iff)
  then have "(2::real) ^ 52 * 2 powi (e - 52)
               \<le> of_int (rne (x / 2 powi (e - 52))) * 2 powi (e - 52)"
    by (intro mult_right_mono) simp_all
  then have "2 powi e \<le> round_double x"
    using x \<open>(2::real) powi e = 2 ^ 52 * 2 powi (e - 52)\<close>
    by (simp add: round_double_def k)
  moreover have "(2::real) powi 1024 \<le> 2 powi e"
    using e by (intro power_int_increasing) simp_all
  moreover have "DBL_MAX < 2 powi 1024"
    by (simp add: DBL_MAX_def)
  ultimately have "DBL_MAX < round_double x" by linarith
  then show ?thesis
    by (simp add: to_float_def)
qed

lemma digits_number_snoc:
  "digits_number (ds @ [d]) = 10 * digits_number ds + decimal_digit_value d"
  by (simp add: digits_number_def)

lemma digits_number_ones: "10 ^ n \<le> digits_number (replicate (Suc n) 0x31)"
proof (induction n)
  case 0
  show ?case
    by (simp add: digits_number_def decimal_digit_value_def unicode_zero_digits_def)
next
  case (Suc n)
  have "replicate (Suc (Suc n)) (0x31::nat) = replicate (Suc n) 0x31 @ [0x31]"
    by (simp only: replicate_append_same) simp
  then have "digits_number (replicate (Suc (Suc n)) 0x31)
               = 10 * digits_number (replicate (Suc n) 0x31) + decimal_digit_value 0x31"
    by (simp only: digits_number_snoc)
  with Suc show ?case by simp
qed

text \<open>\<open>float("1" * 400)\<close> is \<open>inf\<close>: four hundred digits are beyond the largest float.\<close>

lemma parse_amount_unicode_overflow:
  "parse_amount_unicode (replicate 400 0x31) = Inr PInf"
proof -
  have d: "is_decimal_digit 0x31"
    by (simp add: is_decimal_digit_def unicode_zero_digits_def)
  have "(2::real) ^ 1024 \<le> 10 ^ 399"
    by simp
  also have "\<dots> \<le> real (digits_number (replicate (Suc 399) 0x31))"
    using digits_number_ones [of 399] by (metis of_nat_le_iff of_nat_numeral of_nat_power)
  finally have "to_float (real (digits_number (replicate 400 0x31))) = PInf"
    by (intro to_float_overflow) simp
  moreover have "decimal_of (replicate 400 0x31) = Some (real (digits_number (replicate 400 0x31)))"
  proof -
    have "replicate 400 (0x31::nat) = 0x31 # replicate 399 0x31"
      by (simp add: numeral_eq_Suc)
    then have "decimal_of (replicate 400 0x31) = decimal_unsigned (replicate 400 0x31)"
      by (simp add: decimal_of_def)
    also have "\<dots> = Some (real (digits_number (replicate 400 0x31)))"
      using d by (simp add: decimal_unsigned_def Let_def)
    finally show ?thesis .
  qed
  ultimately have "float_or_zero (replicate 400 0x31) = PInf"
    by (simp add: float_or_zero_def float_of_text_def)
  moreover have "amount_or_open_code_point 0x31"
    using d by (simp add: amount_or_open_code_point_def amount_code_point_def)
  moreover have "replicate 400 (0x31::nat) \<noteq> []" "replicate 400 (0x31::nat) \<noteq> [0x2D]"
    "replicate 400 (0x31::nat) \<noteq> [0x2E]"
    by (simp_all add: replicate_eq_replicate [symmetric] numeral_eq_Suc)
  ultimately show ?thesis
    unfolding parse_amount_unicode_cleaned Let_def by simp
qed

text \<open>
  Claim C3, as amended. For every string \<open>_parse_amount\<close> returns, and never raises, the
  value that this rule sequence gives: upper-case, strip \<open>CR\<close>/\<open>DR\<close>, strip thousands
  separators, turn a non-breaking space into a space, turn every opening parenthesis into
  a minus sign and drop every closing one, strip what is outside \<open>[\d.-]\<close>, where \<open>\d\<close> is
  any Unicode decimal digit, \<open>0.0\<close> for the empty string, \<open>-\<close> and \<open>.\<close>; otherwise the
  float nearest to the decimal value, every digit counting with its digit value, an
  infinity if the value is beyond the largest float, and \<open>0.0\<close> if the string is not a
  decimal. In particular \<open>1,234.50CR\<close> gives \<open>1234.50\<close>, \<open>(500.00)\<close> gives \<open>-500.00\<close>
  and the empty string gives \<open>0.0\<close>.
\<close>

theorem parse_amount_follows_amended_rules:
  "parse_amount_unicode s = Inr (amount_token_rules_unicode s)
   \<and> parse_amount_unicode (code_points ''1,234.50CR'') = Inr (Fin 1234.5)
   \<and> parse_amount_unicode (code_points ''(500.00)'') = Inr (Fin (- 500))
   \<and> parse_amount_unicode [] = Inr (Fin 0)"
  by (intro conjI parse_amount_unicode_eq_rules parse_amount_unicode_1234_50CR
      parse_amount_unicode_paren_500 parse_amount_unicode_empty)

theorem parse_amount_follows_amended_rules_witness:
  "parse_amount_unicode [0x31, 0x32, 0x663] = Inr (Fin 123)
   \<and> amount_token_rules_unicode [0x31, 0x32, 0x663] = Fin 123"
proof -
  have "to_float 123 = Fin 123"
    using to_float_of_int [of 123] by simp
  then have "parse_amount_unicode [0x31, 0x32, 0x663] = Inr (Fin 123)"
    unfolding parse_amount_unicode_cleaned by (simp add: amount_unicode_eval)
  then show ?thesis
    using parse_amount_follows_amended_rules [of "[0x31, 0x32, 0x663]"] by simp
qed

theorem parse_amount_unicode_digit_counterexample:
  "parse_amount_unicode [0x663] = Inr (Fin 3)
   \<and> claimed_amount_rules [0x663] = 0
   \<and> parse_amount_unicode (code_points ''(5'') = Inr (Fin (- 5))
   \<and> claimed_amount_rules (code_points ''(5'') = 5"
  by (intro conjI parse_amount_unicode_arabic_three claimed_arabic_three
      parse_amount_unicode_open_5 claimed_open_5)

end
